theory Spec2Isabelle
  imports Main
begin

section \<open>Python strings\<close>

text \<open>
  A Python \<open>str\<close> is a sequence of Unicode code points, so a string is a list of
  natural numbers here. The character tables below are those of CPython 3.11 (Unicode
  14.0.0): \<open>str.isspace\<close>, which \<open>str.strip\<close> and the pattern \<open>\s\<close> share; the line
  boundaries of \<open>str.splitlines\<close>; and the decimal digits (category Nd), which the
  pattern \<open>\d\<close> and \<open>int\<close> share. Python integers are unbounded, but \<open>int\<close> refuses a text
  of more than 4300 digits (\<open>sys.get_int_max_str_digits()\<close>, the default of CPython 3.11).
  The exceptions that the modelled code can raise are values of \<open>py_error\<close>; a function
  that can raise returns a sum, with the exception on the left.
\<close>

datatype py_error = ValueError | AttributeError

type_synonym ustr = "nat list"

definition ascii :: "string \<Rightarrow> ustr" where
  "ascii s = map of_char s"

definition is_space :: "nat \<Rightarrow> bool" where
  "is_space c \<longleftrightarrow>
     (9 \<le> c \<and> c \<le> 13) \<or> (28 \<le> c \<and> c \<le> 32) \<or> c = 0x85 \<or> c = 0xA0 \<or> c = 0x1680 \<or>
     (0x2000 \<le> c \<and> c \<le> 0x200A) \<or> c = 0x2028 \<or> c = 0x2029 \<or> c = 0x202F \<or>
     c = 0x205F \<or> c = 0x3000"

definition is_linebreak :: "nat \<Rightarrow> bool" where
  "is_linebreak c \<longleftrightarrow>
     (10 \<le> c \<and> c \<le> 13) \<or> (28 \<le> c \<and> c \<le> 30) \<or> c = 0x85 \<or> c = 0x2028 \<or> c = 0x2029"

text \<open>Each entry is the code point of a digit zero; the nine that follow it are 1 to 9.\<close>

definition nd_starts :: "nat list" where
  "nd_starts =
    [0x30, 0x660, 0x6F0, 0x7C0, 0x966, 0x9E6, 0xA66, 0xAE6, 0xB66, 0xBE6, 0xC66, 0xCE6,
     0xD66, 0xDE6, 0xE50, 0xED0, 0xF20, 0x1040, 0x1090, 0x17E0, 0x1810, 0x1946, 0x19D0,
     0x1A80, 0x1A90, 0x1B50, 0x1BB0, 0x1C40, 0x1C50, 0xA620, 0xA8D0, 0xA900, 0xA9D0,
     0xA9F0, 0xAA50, 0xABF0, 0xFF10, 0x104A0, 0x10D30, 0x11066, 0x110F0, 0x11136,
     0x111D0, 0x112F0, 0x11450, 0x114D0, 0x11650, 0x116C0, 0x11730, 0x118E0, 0x11950,
     0x11C50, 0x11D50, 0x11DA0, 0x16A60, 0x16AC0, 0x16B50, 0x1D7CE, 0x1D7D8, 0x1D7E2,
     0x1D7EC, 0x1D7F6, 0x1E140, 0x1E2F0, 0x1E950, 0x1FBF0]"

definition decimal_value :: "nat \<Rightarrow> nat option" where
  "decimal_value c =
     (case find (\<lambda>s. s \<le> c \<and> c < s + 10) nd_starts of
        Some s \<Rightarrow> Some (c - s)
      | None \<Rightarrow> None)"

definition is_digit :: "nat \<Rightarrow> bool" where
  "is_digit c \<longleftrightarrow> decimal_value c \<noteq> None"

definition lstrip :: "ustr \<Rightarrow> ustr" where
  "lstrip s = dropWhile is_space s"

definition rstrip :: "ustr \<Rightarrow> ustr" where
  "rstrip s = rev (dropWhile is_space (rev s))"

definition strip :: "ustr \<Rightarrow> ustr" where
  "strip s = rstrip (lstrip s)"

definition startswith :: "ustr \<Rightarrow> ustr \<Rightarrow> bool" where
  "startswith s p \<longleftrightarrow> take (length p) s = p"

text \<open>
  \<open>str.splitlines\<close>: a line ends at a line boundary, CR LF counts as one boundary, and
  there is no empty last line after a final boundary. The first argument is the line
  read so far.
\<close>

fun splitlines_from :: "ustr \<Rightarrow> ustr \<Rightarrow> ustr list" where
  "splitlines_from cur [] = (if cur = [] then [] else [cur])"
| "splitlines_from cur (c # cs) =
     (if c = 13 \<and> cs \<noteq> [] \<and> hd cs = 10 then cur # splitlines_from [] (tl cs)
      else if is_linebreak c then cur # splitlines_from [] cs
      else splitlines_from (cur @ [c]) cs)"

definition splitlines :: "ustr \<Rightarrow> ustr list" where
  "splitlines s = splitlines_from [] s"

text \<open>
  \<open>int\<close> applied to a string: white space around the number is dropped (the white space
  of \<open>str.isspace\<close> without the four separators U+001C to U+001F), a sign may come first,
  and the digits may be separated by single underscores. A text with more than
  \<open>int_max_str_digits\<close> digits is refused, whatever else it holds (leading zeros count,
  the sign, the underscores and the white space do not). \<open>None\<close> stands for \<open>ValueError\<close>.
\<close>

definition int_max_str_digits :: nat where
  "int_max_str_digits = 4300"

definition int_space :: "nat \<Rightarrow> bool" where
  "int_space c \<longleftrightarrow> is_space c \<and> \<not> (28 \<le> c \<and> c \<le> 31)"

fun digit_groups :: "nat \<Rightarrow> ustr \<Rightarrow> nat option" where
  "digit_groups acc [] = Some acc"
| "digit_groups acc [c] =
     (case decimal_value c of None \<Rightarrow> None | Some v \<Rightarrow> Some (10 * acc + v))"
| "digit_groups acc (c # d # cs) =
     (if c = 95 then
        (case decimal_value d of
           None \<Rightarrow> None
         | Some v \<Rightarrow> digit_groups (10 * acc + v) cs)
      else
        (case decimal_value c of
           None \<Rightarrow> None
         | Some v \<Rightarrow> digit_groups (10 * acc + v) (d # cs)))"

definition unsigned_int :: "ustr \<Rightarrow> nat option" where
  "unsigned_int s =
     (if int_max_str_digits < length (filter is_digit s) then None
      else
        (case s of
           [] \<Rightarrow> None
         | c # cs \<Rightarrow>
             (case decimal_value c of None \<Rightarrow> None | Some v \<Rightarrow> digit_groups v cs)))"

definition py_int :: "ustr \<Rightarrow> int option" where
  "py_int s =
     (let t = rev (dropWhile int_space (rev (dropWhile int_space s)))
      in case t of
           [] \<Rightarrow> None
         | c # cs \<Rightarrow>
             if c = 45 then map_option (\<lambda>n. - int n) (unsigned_int cs)
             else if c = 43 then map_option int (unsigned_int cs)
             else map_option int (unsigned_int t))"


section \<open>Positions of a unified diff\<close>

subsection \<open>The hunk header\<close>

text \<open>
  \<open>re.match(r'@@ -\d+(?:,\d+)? \+(\d+)(?:,\d+)? @@', raw_line)\<close> matches at the start
  of the line and has no anchor at its end. Every repetition is followed by a character
  outside its class (a comma or a space after digits), so the greedy choice is the only
  one that can succeed and the pattern is read left to right without backtracking.
  The result is group 1.
\<close>

definition lit :: "ustr \<Rightarrow> ustr \<Rightarrow> ustr option" where
  "lit p s = (if startswith s p then Some (drop (length p) s) else None)"

definition digits1 :: "ustr \<Rightarrow> (ustr \<times> ustr) option" where
  "digits1 s =
     (let ds = takeWhile is_digit s
      in if ds = [] then None else Some (ds, dropWhile is_digit s))"

definition opt_count :: "ustr \<Rightarrow> ustr" where
  "opt_count s =
     (case lit (ascii '','') s of
        None \<Rightarrow> s
      | Some r \<Rightarrow> (case digits1 r of None \<Rightarrow> s | Some (ds, r') \<Rightarrow> r'))"

definition hunk_header_match :: "ustr \<Rightarrow> ustr option" where
  "hunk_header_match raw_line =
     (case lit (ascii ''@@ -'') raw_line of
        None \<Rightarrow> None
      | Some r1 \<Rightarrow>
     (case digits1 r1 of
        None \<Rightarrow> None
      | Some (old_start, r2) \<Rightarrow>
     (case lit (ascii '' +'') (opt_count r2) of
        None \<Rightarrow> None
      | Some r3 \<Rightarrow>
     (case digits1 r3 of
        None \<Rightarrow> None
      | Some (new_start, r4) \<Rightarrow>
     (case lit (ascii '' @@'') (opt_count r4) of
        None \<Rightarrow> None
      | Some r5 \<Rightarrow> Some new_start)))))"

subsection \<open>\<open>_extract_comment_lines_from_diff\<close>\<close>

text \<open>
  The state of the loop is the pair of \<open>comment_lines\<close> and \<open>current_new_line\<close>
  (\<open>None\<close> as in the source). One call of \<open>scan_line\<close> is one iteration; it raises
  \<open>ValueError\<close> where \<open>int(match.group(1))\<close> does, and \<open>scan_lines\<close>, the loop, stops at
  the first line that raises.
\<close>

definition scan_line ::
  "int list \<times> int option \<Rightarrow> ustr \<Rightarrow> py_error + int list \<times> int option" where
  "scan_line st raw_line =
     (case st of (comment_lines, current_new_line) \<Rightarrow>
        if startswith raw_line (ascii ''@@'') then
          (case hunk_header_match raw_line of
             None \<Rightarrow> Inr (comment_lines, None)
           | Some g \<Rightarrow>
               (case py_int g of
                  None \<Rightarrow> Inl ValueError
                | Some n \<Rightarrow> Inr (comment_lines, Some n)))
        else
          (case current_new_line of
             None \<Rightarrow> Inr st
           | Some n \<Rightarrow>
               if startswith raw_line (ascii ''+'') \<and> \<not> startswith raw_line (ascii ''+++'')
               then Inr (comment_lines @ [n], Some (n + 1))
               else if startswith raw_line (ascii ''-'') \<and> \<not> startswith raw_line (ascii ''---'')
               then Inr st
               else Inr (comment_lines, Some (n + 1))))"

fun scan_lines ::
  "int list \<times> int option \<Rightarrow> ustr list \<Rightarrow> py_error + int list \<times> int option" where
  "scan_lines st [] = Inr st"
| "scan_lines st (raw_line # rest) =
     (case scan_line st raw_line of
        Inl e \<Rightarrow> Inl e
      | Inr st' \<Rightarrow> scan_lines st' rest)"

definition extract_comment_lines_from_diff :: "ustr \<Rightarrow> py_error + int list" where
  "extract_comment_lines_from_diff diff =
     (if diff = [] then Inr []
      else
        (case scan_lines ([], None) (splitlines diff) of
           Inl e \<Rightarrow> Inl e
         | Inr (comment_lines, current_new_line) \<Rightarrow> Inr comment_lines))"

subsection \<open>\<open>_extract_review_positions\<close>\<close>

text \<open>
  A change is a dictionary; its fields are the keys the handlers read, each with the
  value of \<open>change.get(key)\<close>: \<open>None\<close> for a key that is missing or holds \<open>None\<close>.
\<close>

record change =
  old_path :: "ustr option"
  new_path :: "ustr option"
  filename :: "ustr option"
  diff :: "ustr option"
  patch :: "ustr option"
  status :: "ustr option"
  additions :: "int option"
  deletions :: "int option"

record position =
  path :: ustr
  line :: int

text \<open>Python's \<open>a or b\<close> on values that are a string or \<open>None\<close>.\<close>

definition py_or :: "ustr option \<Rightarrow> ustr option \<Rightarrow> ustr option" where
  "py_or a b = (if a = None \<or> a = Some [] then b else a)"

text \<open>
  The loop over the changes; an exception of \<open>_extract_comment_lines_from_diff\<close> leaves
  the loop at the change that raised it.
\<close>

fun extract_review_positions :: "change list \<Rightarrow> py_error + position list" where
  "extract_review_positions [] = Inr []"
| "extract_review_positions (c # changes) =
     (case py_or (py_or (new_path c) (filename c)) (old_path c) of
        None \<Rightarrow> extract_review_positions changes
      | Some p \<Rightarrow>
          if p = [] then extract_review_positions changes
          else
            (case extract_comment_lines_from_diff
                    (case py_or (py_or (diff c) (patch c)) (Some []) of
                       Some d \<Rightarrow> d
                     | None \<Rightarrow> []) of
               Inl e \<Rightarrow> Inl e
             | Inr lines \<Rightarrow>
                 (case extract_review_positions changes of
                    Inl e \<Rightarrow> Inl e
                  | Inr positions \<Rightarrow>
                      Inr (map (\<lambda>n. \<lparr>path = p, line = n\<rparr>) lines @ positions))))"

section \<open>Splitting a review into comments\<close>

subsection \<open>The marker line\<close>

text \<open>
  \<open>re.sub(r'^\s*Auto Review Result[:...]\s*', '', text, flags=re.IGNORECASE)\<close>, where
  the class holds the colon and the full-width colon U+FF1A. Without \<open>re.MULTILINE\<close> the
  anchor holds at position 0 only, so at most one match is replaced. Under
  \<open>re.IGNORECASE\<close> a letter of the pattern matches its two ASCII cases; \<open>i\<close> also matches
  U+0130 and U+0131, \<open>s\<close> also U+017F, and \<open>k\<close> also U+212A. The pattern is given in lower
  case.
\<close>

definition ci_match :: "nat \<Rightarrow> nat \<Rightarrow> bool" where
  "ci_match p c \<longleftrightarrow>
     c = p \<or> (97 \<le> p \<and> p \<le> 122 \<and> c + 32 = p) \<or>
     (p = 105 \<and> (c = 0x130 \<or> c = 0x131)) \<or> (p = 115 \<and> c = 0x17F) \<or>
     (p = 107 \<and> c = 0x212A)"

fun lit_ignorecase :: "ustr \<Rightarrow> ustr \<Rightarrow> ustr option" where
  "lit_ignorecase [] s = Some s"
| "lit_ignorecase (p # ps) [] = None"
| "lit_ignorecase (p # ps) (c # cs) = (if ci_match p c then lit_ignorecase ps cs else None)"

definition remove_marker :: "ustr \<Rightarrow> ustr" where
  "remove_marker text =
     (case lit_ignorecase (ascii ''auto review result'') (dropWhile is_space text) of
        None \<Rightarrow> text
      | Some r \<Rightarrow>
          (case r of
             [] \<Rightarrow> text
           | c # r' \<Rightarrow> if c = 0x3A \<or> c = 0xFF1A then dropWhile is_space r' else text))"

subsection \<open>The score section\<close>

text \<open>
  \<open>re.search(r'(^|\n)\s*#{0,6}\s*(M1|M2)', text)\<close>, where M1 is the four characters
  U+8BC4 U+5206 U+660E U+7EC6 and M2 the two characters U+603B U+5206.
  \<open>score_marker_at\<close> is the part after the first group: white space, at most six \<open>#\<close>
  that no further \<open>#\<close> follows, white space, and one of the two markers.
  \<open>score_section_start\<close> is \<open>match.start()\<close>: position 0, or the position of the first line
  feed that such a part follows.
\<close>

definition score_marker_at :: "ustr \<Rightarrow> bool" where
  "score_marker_at s =
     (let s1 = dropWhile is_space s;
          s2 = dropWhile is_space (dropWhile (\<lambda>c. c = 35) s1)
      in length (takeWhile (\<lambda>c. c = 35) s1) \<le> 6 \<and>
         (startswith s2 [0x8BC4, 0x5206, 0x660E, 0x7EC6] \<or> startswith s2 [0x603B, 0x5206]))"

fun score_search_nl :: "nat \<Rightarrow> ustr \<Rightarrow> nat option" where
  "score_search_nl i [] = None"
| "score_search_nl i (c # cs) =
     (if c = 10 \<and> score_marker_at cs then Some i else score_search_nl (i + 1) cs)"

definition score_section_start :: "ustr \<Rightarrow> nat option" where
  "score_section_start text =
     (if score_marker_at text then Some 0 else score_search_nl 0 text)"

subsection \<open>List items\<close>

text \<open>
  \<open>(.+)$\<close> at the front of a string: the dot matches every character but the line feed,
  and \<open>$\<close> holds at the end of the string and before a line feed that ends it.
\<close>

definition dot_plus_end :: "ustr \<Rightarrow> ustr option" where
  "dot_plus_end s =
     (let g = takeWhile (\<lambda>c. c \<noteq> 10) s; r = dropWhile (\<lambda>c. c \<noteq> 10) s
      in if g \<noteq> [] \<and> (r = [] \<or> r = [10]) then Some g else None)"

text \<open>
  White space followed by \<open>(.+)$\<close>: the repetition of \<open>\s\<close> is greedy, so the longest run
  of white space is tried first and then each shorter one, down to \<open>lo\<close> characters
  (1 for \<open>\s+\<close>, 0 for \<open>\s*\<close>). The result is group 1 of the first success.
\<close>

fun spaces_then_rest :: "nat \<Rightarrow> ustr \<Rightarrow> nat \<Rightarrow> ustr option" where
  "spaces_then_rest lo s 0 = (if lo = 0 then dot_plus_end s else None)"
| "spaces_then_rest lo s (Suc k) =
     (if Suc k < lo then None
      else (case dot_plus_end (drop (Suc k) s) of
              Some g \<Rightarrow> Some g
            | None \<Rightarrow> spaces_then_rest lo s k))"

text \<open>\<open>re.match(r'^[-*+]\s+(.+)$', line)\<close>, group 1.\<close>

definition bullet_match :: "ustr \<Rightarrow> ustr option" where
  "bullet_match ln =
     (case ln of
        [] \<Rightarrow> None
      | c # r \<Rightarrow>
          if c = 45 \<or> c = 42 \<or> c = 43
          then spaces_then_rest 1 r (length (takeWhile is_space r))
          else None)"

text \<open>
  \<open>re.match(r'^\d+[\.X\)]\s*(.+)$', line)\<close>, group 1, where X is the ideographic comma
  U+3001. A digit is not in the class, so only the longest run of digits can be followed
  by a character of the class.
\<close>

definition ordered_match :: "ustr \<Rightarrow> ustr option" where
  "ordered_match ln =
     (case digits1 ln of
        None \<Rightarrow> None
      | Some (ds, r) \<Rightarrow>
          (case r of
             [] \<Rightarrow> None
           | c # r' \<Rightarrow>
               if c = 46 \<or> c = 0x3001 \<or> c = 41
               then spaces_then_rest 0 r' (length (takeWhile is_space r'))
               else None))"

subsection \<open>Paragraphs\<close>

text \<open>
  \<open>re.split(r'\n\s*\n', text)\<close>. A match starts at a line feed and ends at the last line
  feed of the run of white space that follows it; the search goes on after the match.
  The first argument is the piece read so far.
\<close>

definition last_newline :: "ustr \<Rightarrow> nat option" where
  "last_newline w =
     (if 10 \<in> set w then Some (length w - 1 - length (takeWhile (\<lambda>c. c \<noteq> 10) (rev w)))
      else None)"

function split_blank :: "ustr \<Rightarrow> ustr \<Rightarrow> ustr list" where
  "split_blank cur [] = [cur]"
| "split_blank cur (c # cs) =
     (if c = 10 then
        (case last_newline (takeWhile is_space cs) of
           Some k \<Rightarrow> cur # split_blank [] (drop (Suc k) cs)
         | None \<Rightarrow> split_blank (cur @ [c]) cs)
      else split_blank (cur @ [c]) cs)"
  by pat_completeness auto
termination
  by (relation "measure (\<lambda>(cur, s). length s)") auto

text \<open>\<open>re.sub(r'\s+', ' ', item)\<close>: every longest run of white space becomes one space.\<close>

function collapse_ws :: "ustr \<Rightarrow> ustr" where
  "collapse_ws [] = []"
| "collapse_ws (c # cs) =
     (if is_space c then 32 # collapse_ws (dropWhile is_space cs)
      else c # collapse_ws cs)"
  by pat_completeness auto
termination
  by (relation "measure length") (auto simp: length_dropWhile_le less_Suc_eq_le)

subsection \<open>\<open>_split_review_to_comments\<close>\<close>

text \<open>The three section titles that are no comments, as code points.\<close>

definition section_titles :: "ustr list" where
  "section_titles =
     [[0x95EE, 0x9898, 0x63CF, 0x8FF0, 0x548C, 0x4F18, 0x5316, 0x5EFA, 0x8BAE],
      [0x95EE, 0x9898, 0x63CF, 0x8FF0],
      [0x4F18, 0x5316, 0x5EFA, 0x8BAE]]"

text \<open>One iteration of the loop over the lines, and one of the loop over the blocks.\<close>

definition add_bullet_item :: "ustr list \<Rightarrow> ustr \<Rightarrow> ustr list" where
  "add_bullet_item bullet_items ln =
     (case bullet_match ln of
        Some g \<Rightarrow> bullet_items @ [strip g]
      | None \<Rightarrow>
          (case ordered_match ln of
             Some g \<Rightarrow> bullet_items @ [strip g]
           | None \<Rightarrow> bullet_items))"

definition add_block :: "ustr list \<Rightarrow> ustr \<Rightarrow> ustr list" where
  "add_block comments block =
     (let item = strip block
      in if item = [] \<or> startswith item (ascii ''#'') then comments
         else if item \<in> set section_titles then comments
         else comments @ [collapse_ws item])"

text \<open>The text after the marker line and the score section are cut off.\<close>

definition truncate_score :: "ustr \<Rightarrow> ustr" where
  "truncate_score text =
     (case score_section_start text of
        Some i \<Rightarrow> strip (take i text)
      | None \<Rightarrow> text)"

definition split_review_to_comments :: "ustr \<Rightarrow> ustr list" where
  "split_review_to_comments review_result =
     (if review_result = [] then []
      else
        let text = remove_marker (strip review_result)
        in if text = [] then []
           else
             let text' = truncate_score text;
                 lines = map strip (filter (\<lambda>ln. strip ln \<noteq> []) (splitlines text'));
                 bullet_items = foldl add_bullet_item [] lines
             in if bullet_items \<noteq> [] then bullet_items
                else foldl add_block [] (split_blank [] text'))"


section \<open>The GitHub API\<close>

text \<open>
  The handlers talk to GitHub through \<open>requests.get\<close> and \<open>requests.post\<close>. A request is
  kept as its endpoint and the values that the handler puts into the URL and the body;
  the two headers are the same on every call and are left out. Every function of the
  model takes the list of effects so far (the requests sent and the pauses made, oldest
  first) and returns it extended. The server is a parameter: it answers a request in the
  light of all that happened before. Only answers that arrive are modelled, not failures
  of the transport.
\<close>

datatype request =
    ListPullFiles "ustr option" "int option"
  | IssueComment "ustr option" "int option" ustr
  | ReviewComment "ustr option" "int option" ustr ustr ustr int ustr
  | CommitLookup "ustr option" ustr
  | CompareRefs "ustr option" ustr ustr

text \<open>
  \<open>ListPullFiles repo n\<close> is GET \<open>/repos/{repo}/pulls/{n}/files\<close>;
  \<open>IssueComment repo n body\<close> is POST \<open>/repos/{repo}/issues/{n}/comments\<close>;
  \<open>ReviewComment repo n body commit_id path line side\<close> is POST
  \<open>/repos/{repo}/pulls/{n}/comments\<close>; \<open>CommitLookup repo sha\<close> is GET
  \<open>/repos/{repo}/commits/{sha}\<close>; \<open>CompareRefs repo base head\<close> is GET
  \<open>/repos/{repo}/compare/{base}...{head}\<close>.
\<close>

datatype effect = Call request | Sleep nat

record 'a response =
  status_code :: nat
  json :: 'a

text \<open>
  A key of a JSON object is missing, or holds null, or holds a value. \<open>d.get(key)\<close> is
  \<open>None\<close> in the first two cases; \<open>d.get(key, default)\<close> is the default only when the key
  is missing, and \<open>None\<close> when it holds null.
\<close>

datatype 'a field = Missing | Null | Val 'a

fun dict_get :: "'a field \<Rightarrow> 'a option" where
  "dict_get Missing = None"
| "dict_get Null = None"
| "dict_get (Val v) = Some v"

fun dict_get_default :: "'a \<Rightarrow> 'a field \<Rightarrow> 'a option" where
  "dict_get_default d Missing = Some d"
| "dict_get_default d Null = None"
| "dict_get_default d (Val v) = Some v"

text \<open>
  A file dictionary of GitHub, with the keys the handlers read: \<open>filename\<close>, \<open>patch\<close>,
  \<open>status\<close>, \<open>additions\<close> and \<open>deletions\<close> (here with the prefix \<open>file\<close>). A value, where
  there is one, has the type that GitHub gives it.
\<close>

record gh_file =
  file_filename :: "ustr field"
  file_patch :: "ustr field"
  file_status :: "ustr field"
  file_additions :: "int field"
  file_deletions :: "int field"

text \<open>
  The body of an answer is kept at the type the handler reads it at: the list of file
  dictionaries of a pull request, the \<open>sha\<close> values of the \<open>parents\<close> of a commit, the
  \<open>files\<close> of a comparison (\<open>[]\<close> when the key is missing).
\<close>

record github =
  get_files :: "effect list \<Rightarrow> request \<Rightarrow> gh_file list response"
  get_commit :: "effect list \<Rightarrow> request \<Rightarrow> ustr option list response"
  get_compare :: "effect list \<Rightarrow> request \<Rightarrow> gh_file list response"
  post :: "effect list \<Rightarrow> request \<Rightarrow> nat"


section \<open>The pull request handler\<close>

text \<open>
  The webhook payload of a pull request, with the keys the handler reads:
  \<open>pull_request\<close> with its keys \<open>number\<close> and \<open>head\<close>, \<open>head\<close> with its key \<open>sha\<close>,
  \<open>repository\<close> with its key \<open>full_name\<close>, and \<open>action\<close> (here with the prefix \<open>pr\<close>). A
  value, where there is one, has the type that GitHub gives it: an object, a number, a
  text.
\<close>

record head_dict =
  pr_sha :: "ustr field"

record pull_request_dict =
  pr_number :: "int field"
  pr_head :: "head_dict field"

record repository_dict =
  pr_full_name :: "ustr field"

record pr_payload =
  pr_pull_request :: "pull_request_dict field"
  pr_repository :: "repository_dict field"
  pr_action :: "ustr field"

record pull_request_handler =
  webhook_data :: pr_payload
  github_token :: ustr
  github_url :: ustr
  event_type :: "ustr option"
  repo_full_name :: "ustr option"
  pull_request_number :: "int option"
  action :: "ustr option"

text \<open>
  \<open>webhook_data.get('pull_request', {}).get('number')\<close> and its like: the default \<open>{}\<close>
  stands in for a missing key only, so a key that holds null gives \<open>None\<close>, and the next
  \<open>.get\<close> raises \<open>AttributeError\<close>.
\<close>

definition pull_request_number_of :: "pr_payload \<Rightarrow> py_error + int option" where
  "pull_request_number_of data =
     (case pr_pull_request data of
        Missing \<Rightarrow> Inr None
      | Null \<Rightarrow> Inl AttributeError
      | Val pr \<Rightarrow> Inr (dict_get (pr_number pr)))"

definition repo_full_name_of :: "pr_payload \<Rightarrow> py_error + ustr option" where
  "repo_full_name_of data =
     (case pr_repository data of
        Missing \<Rightarrow> Inr None
      | Null \<Rightarrow> Inl AttributeError
      | Val repo \<Rightarrow> Inr (dict_get (pr_full_name repo)))"

text \<open>
  The constructor with \<open>parse_event_type\<close> and \<open>parse_pull_request_event\<close>: it raises where
  one of the two lookups does, the number first.
\<close>

definition PullRequestHandler ::
  "pr_payload \<Rightarrow> ustr \<Rightarrow> ustr \<Rightarrow> py_error + pull_request_handler" where
  "PullRequestHandler data token url =
     (case pull_request_number_of data of
        Inl e \<Rightarrow> Inl e
      | Inr n \<Rightarrow>
          (case repo_full_name_of data of
             Inl e \<Rightarrow> Inl e
           | Inr repo \<Rightarrow>
               Inr \<lparr>webhook_data = data, github_token = token, github_url = url,
                    event_type = Some (ascii ''pull_request''),
                    repo_full_name = repo,
                    pull_request_number = n,
                    action = dict_get (pr_action data)\<rparr>))"

subsection \<open>\<open>get_pull_request_changes\<close>\<close>

definition max_retries :: nat where
  "max_retries = 3"

definition retry_delay :: nat where
  "retry_delay = 10"

text \<open>
  The change made of a file dictionary (lines 107 to 113). It has the five keys
  \<open>old_path\<close>, \<open>new_path\<close>, \<open>diff\<close>, \<open>additions\<close> and \<open>deletions\<close>, and no other.
\<close>

definition file_to_change :: "gh_file \<Rightarrow> change" where
  "file_to_change file =
     \<lparr>old_path = dict_get (file_filename file),
      new_path = dict_get (file_filename file),
      filename = None,
      diff = dict_get_default [] (file_patch file),
      patch = None,
      status = None,
      additions = dict_get_default 0 (file_additions file),
      deletions = dict_get_default 0 (file_deletions file)\<rparr>"

text \<open>The loop \<open>for attempt in range(max_retries)\<close>, over the attempts still to make.\<close>

fun pull_request_changes_loop ::
  "github \<Rightarrow> pull_request_handler \<Rightarrow> nat list \<Rightarrow> effect list \<Rightarrow> change list \<times> effect list"
where
  "pull_request_changes_loop gh h [] tr = ([], tr)"
| "pull_request_changes_loop gh h (attempt # attempts) tr =
     (let request = ListPullFiles (repo_full_name h) (pull_request_number h);
          response = get_files gh tr request;
          tr1 = tr @ [Call request]
      in if status_code response = 200 then
           if json response \<noteq> [] then (map file_to_change (json response), tr1)
           else pull_request_changes_loop gh h attempts (tr1 @ [Sleep retry_delay])
         else ([], tr1))"

definition get_pull_request_changes ::
  "github \<Rightarrow> pull_request_handler \<Rightarrow> effect list \<Rightarrow> change list \<times> effect list"
where
  "get_pull_request_changes gh h tr =
     (if event_type h \<noteq> Some (ascii ''pull_request'') then ([], tr)
      else pull_request_changes_loop gh h [0..<max_retries] tr)"

subsection \<open>The configured maximum of comments\<close>

text \<open>
  Lines 268 to 271 of the handler: the environment variable
  \<open>GITHUB_PR_REVIEW_COMMENT_MAX_COUNT\<close> (\<open>None\<close> when it is not set), with the default
  text \<open>20\<close>, and 20 again when \<open>int\<close> raises.
\<close>

definition max_comments :: "ustr option \<Rightarrow> int" where
  "max_comments env =
     (case py_int (case env of Some v \<Rightarrow> v | None \<Rightarrow> ascii ''20'') of
        Some n \<Rightarrow> n
      | None \<Rightarrow> 20)"

subsection \<open>\<open>_add_pull_request_issue_comment\<close>\<close>

definition add_pull_request_issue_comment ::
  "github \<Rightarrow> pull_request_handler \<Rightarrow> ustr \<Rightarrow> effect list \<Rightarrow> effect list"
where
  "add_pull_request_issue_comment gh h review_result tr =
     tr @ [Call (IssueComment (repo_full_name h) (pull_request_number h) review_result)]"

subsection \<open>\<open>add_pull_request_notes\<close>\<close>

text \<open>Lines 260 to 262: the comments of a review, before the cap.\<close>

definition review_comments :: "ustr \<Rightarrow> ustr list" where
  "review_comments review_result =
     (let comments = split_review_to_comments review_result
      in if comments = [] \<and> review_result \<noteq> [] then [strip review_result] else comments)"

text \<open>
  The loop over \<open>enumerate(comments)\<close>; its state is \<open>success_count\<close> and the effects.
  The loop runs only with a non-empty list of positions.
\<close>

fun post_review_comments ::
  "github \<Rightarrow> pull_request_handler \<Rightarrow> ustr \<Rightarrow> position list \<Rightarrow> (nat \<times> ustr) list \<Rightarrow>
     nat \<times> effect list \<Rightarrow> nat \<times> effect list"
where
  "post_review_comments gh h head_commit_id positions [] st = st"
| "post_review_comments gh h head_commit_id positions ((index, comment) # rest) st =
     (case st of (success_count, tr) \<Rightarrow>
        let pos = positions ! (index mod length positions);
            request = ReviewComment (repo_full_name h) (pull_request_number h) comment
                        head_commit_id (path pos) (line pos) (ascii ''RIGHT'')
        in post_review_comments gh h head_commit_id positions rest
             (if post gh tr request = 201 then success_count + 1 else success_count,
              tr @ [Call request]))"

text \<open>
  Line 274, \<open>webhook_data.get('pull_request', {}).get('head', {}).get('sha')\<close>.
\<close>

definition head_commit_id_of :: "pr_payload \<Rightarrow> py_error + ustr option" where
  "head_commit_id_of data =
     (case pr_pull_request data of
        Missing \<Rightarrow> Inr None
      | Null \<Rightarrow> Inl AttributeError
      | Val pr \<Rightarrow>
          (case pr_head pr of
             Missing \<Rightarrow> Inr None
           | Null \<Rightarrow> Inl AttributeError
           | Val head_value \<Rightarrow> Inr (dict_get (pr_sha head_value))))"

text \<open>
  The two exceptions of the function come before its first request (lines 274 and
  275), so a call that raises has sent nothing: the result is the exception, or the
  effects.
\<close>

definition add_pull_request_notes ::
  "github \<Rightarrow> ustr option \<Rightarrow> pull_request_handler \<Rightarrow> ustr \<Rightarrow> change list \<Rightarrow> effect list \<Rightarrow>
     py_error + effect list"
where
  "add_pull_request_notes gh env h review_result changes tr =
     (let comments = review_comments review_result
      in if comments = [] then Inr tr
         else
           let comments' = take (nat (max 1 (max_comments env))) comments
           in case head_commit_id_of (webhook_data h) of
                Inl e \<Rightarrow> Inl e
              | Inr head_commit_id \<Rightarrow>
                  (case extract_review_positions changes of
                     Inl e \<Rightarrow> Inl e
                   | Inr positions \<Rightarrow>
                       (case head_commit_id of
                          None \<Rightarrow> Inr (add_pull_request_issue_comment gh h review_result tr)
                        | Some commit_id \<Rightarrow>
                            if commit_id = [] \<or> positions = []
                            then Inr (add_pull_request_issue_comment gh h review_result tr)
                            else
                              (case post_review_comments gh h commit_id positions
                                      (List.enumerate 0 comments') (0, tr) of
                                 (success_count, tr') \<Rightarrow>
                                   if success_count = 0
                                   then Inr (add_pull_request_issue_comment gh h
                                               review_result tr')
                                   else Inr tr'))))"


section \<open>The push handler\<close>

text \<open>
  The webhook payload of a push, with the keys the handler reads. \<open>before\<close> and \<open>after\<close>
  are read with the default \<open>''\<close>, \<open>created\<close> and \<open>deleted\<close> with the default \<open>False\<close> and
  only for their truth value, so the payload holds the text (empty when the key is
  missing) and the truth value. A commit of the payload is kept as its \<open>id\<close>.
\<close>

record push_payload =
  push_full_name :: "ustr option"
  ref :: ustr
  before :: ustr
  after :: ustr
  created :: bool
  deleted :: bool
  commits :: "ustr option list"

text \<open>
  The attributes of the push handler have the names of those of the pull request
  handler in the source; here they carry the prefix \<open>push\<close>.
\<close>

record push_handler =
  push_webhook_data :: push_payload
  push_github_token :: ustr
  push_github_url :: ustr
  push_event_type :: "ustr option"
  push_repo_full_name :: "ustr option"
  branch_name :: ustr
  commit_list :: "ustr option list"

text \<open>\<open>str.replace('refs/heads/', '')\<close>: every occurrence is removed, from the left.\<close>

function remove_refs_heads :: "ustr \<Rightarrow> ustr" where
  "remove_refs_heads [] = []"
| "remove_refs_heads (c # cs) =
     (if startswith (c # cs) (ascii ''refs/heads/'')
      then remove_refs_heads (drop 11 (c # cs))
      else c # remove_refs_heads cs)"
  by pat_completeness auto
termination
  by (relation "measure length") auto

definition PushHandler :: "push_payload \<Rightarrow> ustr \<Rightarrow> ustr \<Rightarrow> push_handler" where
  "PushHandler data token url =
     \<lparr>push_webhook_data = data, push_github_token = token, push_github_url = url,
      push_event_type = Some (ascii ''push''),
      push_repo_full_name = push_full_name data,
      branch_name = remove_refs_heads (ref data),
      commit_list = commits data\<rparr>"

definition get_parent_commit_id ::
  "github \<Rightarrow> push_handler \<Rightarrow> ustr \<Rightarrow> effect list \<Rightarrow> ustr \<times> effect list"
where
  "get_parent_commit_id gh h commit_id tr =
     (let request = CommitLookup (push_repo_full_name h) commit_id;
          response = get_commit gh tr request;
          tr1 = tr @ [Call request]
      in if status_code response = 200 then
           (case json response of
              [] \<Rightarrow> ([], tr1)
            | parent # parents \<Rightarrow>
                (case parent of Some sha \<Rightarrow> (sha, tr1) | None \<Rightarrow> ([], tr1)))
         else ([], tr1))"

definition compare_file_to_diff :: "gh_file \<Rightarrow> change" where
  "compare_file_to_diff file =
     \<lparr>old_path = dict_get (file_filename file),
      new_path = dict_get (file_filename file),
      filename = None,
      diff = dict_get_default [] (file_patch file),
      patch = None,
      status = dict_get_default [] (file_status file),
      additions = dict_get_default 0 (file_additions file),
      deletions = dict_get_default 0 (file_deletions file)\<rparr>"

definition repository_compare ::
  "github \<Rightarrow> push_handler \<Rightarrow> ustr \<Rightarrow> ustr \<Rightarrow> effect list \<Rightarrow> change list \<times> effect list"
where
  "repository_compare gh h base head tr =
     (let request = CompareRefs (push_repo_full_name h) base head;
          response = get_compare gh tr request;
          tr1 = tr @ [Call request]
      in if status_code response = 200
         then (map compare_file_to_diff (json response), tr1)
         else ([], tr1))"

text \<open>The loop over the commits of the push, when \<open>before\<close> or \<open>after\<close> is missing.\<close>

fun commit_changes_loop ::
  "github \<Rightarrow> push_handler \<Rightarrow> ustr option list \<Rightarrow> change list \<times> effect list \<Rightarrow>
     change list \<times> effect list"
where
  "commit_changes_loop gh h [] st = st"
| "commit_changes_loop gh h (commit # rest) st =
     (case st of (changes, tr) \<Rightarrow>
        (case commit of
           None \<Rightarrow> commit_changes_loop gh h rest st
         | Some commit_id \<Rightarrow>
             if commit_id = [] then commit_changes_loop gh h rest st
             else
               (case get_parent_commit_id gh h commit_id tr of
                  (parent_id, tr1) \<Rightarrow>
                    if parent_id = [] then commit_changes_loop gh h rest (changes, tr1)
                    else
                      (case repository_compare gh h parent_id commit_id tr1 of
                         (commit_changes, tr2) \<Rightarrow>
                           commit_changes_loop gh h rest (changes @ commit_changes, tr2)))))"

definition get_push_changes ::
  "github \<Rightarrow> push_handler \<Rightarrow> effect list \<Rightarrow> change list \<times> effect list"
where
  "get_push_changes gh h tr =
     (if push_event_type h \<noteq> Some (ascii ''push'') then ([], tr)
      else if commit_list h = [] then ([], tr)
      else
        let before0 = before (push_webhook_data h);
            after0 = after (push_webhook_data h)
        in if before0 \<noteq> [] \<and> after0 \<noteq> [] then
             if created (push_webhook_data h) then
               (case commit_list h of
                  [] \<Rightarrow> ([], tr)
                | None # rest \<Rightarrow> repository_compare gh h before0 after0 tr
                | Some first_commit_id # rest \<Rightarrow>
                    if first_commit_id = [] then repository_compare gh h before0 after0 tr
                    else
                      (case get_parent_commit_id gh h first_commit_id tr of
                         (parent_commit_id, tr1) \<Rightarrow>
                           repository_compare gh h
                             (if parent_commit_id \<noteq> [] then parent_commit_id else before0)
                             after0 tr1))
             else if deleted (push_webhook_data h) then ([], tr)
             else repository_compare gh h before0 after0 tr
           else commit_changes_loop gh h (commit_list h) ([], tr))"


section \<open>The behaviour in the words of its description\<close>

subsection \<open>The mapper in the words of its description\<close>

text \<open>
  The description of the mapper speaks of a running counter of new-file lines and of the
  kind of each line. \<open>counter_step\<close> is the counter after one line: a hunk header sets
  it to the new start when the header is well formed and to unknown (\<open>None\<close>)
  otherwise, a deletion leaves it as it is, and every other line (an addition or a
  context line) advances it when it is known. \<open>counters\<close> lists the value of the counter
  at the moment each line is scanned, and \<open>recorded\<close> keeps that value for the addition
  lines. \<open>digits_value\<close> is the number that a run of digits denotes in base ten, and
  \<open>header_raises\<close> holds of a hunk header whose new start \<open>int\<close> refuses.
\<close>

definition digits_value :: "ustr \<Rightarrow> int" where
  "digits_value ds =
     int (foldl (\<lambda>n c. 10 * n + (case decimal_value c of Some d \<Rightarrow> d | None \<Rightarrow> 0)) 0 ds)"

definition is_header :: "ustr \<Rightarrow> bool" where
  "is_header l \<longleftrightarrow> startswith l (ascii ''@@'')"

definition is_addition :: "ustr \<Rightarrow> bool" where
  "is_addition l \<longleftrightarrow> startswith l (ascii ''+'') \<and> \<not> startswith l (ascii ''+++'')"

definition is_deletion :: "ustr \<Rightarrow> bool" where
  "is_deletion l \<longleftrightarrow> startswith l (ascii ''-'') \<and> \<not> startswith l (ascii ''---'')"

definition new_start :: "ustr \<Rightarrow> int option" where
  "new_start l = (case hunk_header_match l of None \<Rightarrow> None | Some g \<Rightarrow> py_int g)"

definition header_raises :: "ustr \<Rightarrow> bool" where
  "header_raises l \<longleftrightarrow>
     is_header l \<and> (case hunk_header_match l of None \<Rightarrow> False | Some g \<Rightarrow> py_int g = None)"

definition counter_step :: "int option \<Rightarrow> ustr \<Rightarrow> int option" where
  "counter_step cur l =
     (if is_header l then new_start l
      else if is_deletion l then cur
      else map_option (\<lambda>n. n + 1) cur)"

fun counters :: "int option \<Rightarrow> ustr list \<Rightarrow> int option list" where
  "counters cur [] = []"
| "counters cur (l # ls) = cur # counters (counter_step cur l) ls"

definition recorded :: "ustr list \<Rightarrow> int list" where
  "recorded ls =
     List.map_filter (\<lambda>(l, cur). if is_addition l then cur else None)
       (zip ls (counters None ls))"


subsection \<open>List items in the words of the description\<close>

text \<open>
  The lines that the splitter looks at: the stripped, non-empty lines of the text that is
  left when the marker line and the score section are cut off. A bullet item is a line
  that starts with \<open>-\<close>, \<open>*\<close> or \<open>+\<close> followed by white space and then by text; an ordered
  item is a line that starts with digits followed by \<open>.\<close>, U+3001 or \<open>)\<close> and then by text,
  with or without white space between. The value is the remainder: the text after the
  marker and the white space.
\<close>

definition review_lines :: "ustr \<Rightarrow> ustr list" where
  "review_lines review_result =
     map strip (filter (\<lambda>ln. strip ln \<noteq> [])
       (splitlines (truncate_score (remove_marker (strip review_result)))))"

definition bullet_item :: "ustr \<Rightarrow> ustr option" where
  "bullet_item l =
     (case l of
        [] \<Rightarrow> None
      | c # s \<Rightarrow>
          if (c = 45 \<or> c = 42 \<or> c = 43) \<and> takeWhile is_space s \<noteq> [] \<and> lstrip s \<noteq> []
          then Some (lstrip s) else None)"

definition ordered_item :: "ustr \<Rightarrow> ustr option" where
  "ordered_item l =
     (case dropWhile is_digit l of
        [] \<Rightarrow> None
      | c # s \<Rightarrow>
          if takeWhile is_digit l \<noteq> [] \<and> (c = 46 \<or> c = 0x3001 \<or> c = 41) \<and> lstrip s \<noteq> []
          then Some (lstrip s) else None)"

definition list_item :: "ustr \<Rightarrow> ustr option" where
  "list_item l = (case bullet_item l of Some g \<Rightarrow> Some g | None \<Rightarrow> ordered_item l)"

subsection \<open>Delivery, as seen from outside\<close>

text \<open>
  The comments that are left after the cap; the request that delivers comment \<open>c\<close> of
  index \<open>i\<close> at the position of index \<open>i mod length ps\<close>; the requests for a whole list of
  comments, in order; the number of requests that the server answers with 201 when they
  are sent one after the other; and the aggregate comment on the issue thread.
\<close>

definition capped_comments :: "ustr option \<Rightarrow> ustr \<Rightarrow> ustr list" where
  "capped_comments env review_result =
     take (nat (max 1 (max_comments env))) (review_comments review_result)"

definition inline_request ::
  "pull_request_handler \<Rightarrow> ustr \<Rightarrow> position list \<Rightarrow> nat \<Rightarrow> ustr \<Rightarrow> request" where
  "inline_request h sha ps i c =
     ReviewComment (repo_full_name h) (pull_request_number h) c sha
       (path (ps ! (i mod length ps))) (line (ps ! (i mod length ps))) (ascii ''RIGHT'')"

definition inline_requests ::
  "pull_request_handler \<Rightarrow> ustr \<Rightarrow> position list \<Rightarrow> ustr list \<Rightarrow> request list" where
  "inline_requests h sha ps cs =
     map (\<lambda>i. inline_request h sha ps i (cs ! i)) [0..<length cs]"

fun successes :: "github \<Rightarrow> effect list \<Rightarrow> request list \<Rightarrow> nat" where
  "successes gh tr [] = 0"
| "successes gh tr (r # rs) =
     (if post gh tr r = 201 then 1 else 0) + successes gh (tr @ [Call r]) rs"

definition issue_comment :: "pull_request_handler \<Rightarrow> ustr \<Rightarrow> effect" where
  "issue_comment h review_result =
     Call (IssueComment (repo_full_name h) (pull_request_number h) review_result)"

fun is_call :: "effect \<Rightarrow> bool" where
  "is_call (Call r) = True"
| "is_call (Sleep n) = False"

fun is_review_comment :: "effect \<Rightarrow> bool" where
  "is_review_comment (Call (ReviewComment repo n body sha p l side)) = True"
| "is_review_comment e = False"

fun is_compare :: "effect \<Rightarrow> bool" where
  "is_compare (Call (CompareRefs repo base head)) = True"
| "is_compare e = False"

subsection \<open>Servers and events for the examples\<close>

text \<open>
  A server that answers the k-th call (counted over all calls so far) from a script:
  the list of files with its status for a file listing, the status alone for a POST;
  beyond the script it answers 404. Commit lookups and comparisons get one fixed answer
  each.
\<close>

definition scripted ::
  "(nat \<times> gh_file list) list \<Rightarrow> nat \<times> ustr option list \<Rightarrow> nat \<times> gh_file list \<Rightarrow> nat list \<Rightarrow>
     github"
where
  "scripted files parents compared posts =
     \<lparr>get_files = (\<lambda>tr r.
        case drop (length (filter is_call tr)) files of
          [] \<Rightarrow> \<lparr>status_code = 404, json = []\<rparr>
        | (st, fs) # rest \<Rightarrow> \<lparr>status_code = st, json = fs\<rparr>),
      get_commit = (\<lambda>tr r. \<lparr>status_code = fst parents, json = snd parents\<rparr>),
      get_compare = (\<lambda>tr r. \<lparr>status_code = fst compared, json = snd compared\<rparr>),
      post = (\<lambda>tr r.
        case drop (length (filter is_call tr)) posts of [] \<Rightarrow> 404 | st # rest \<Rightarrow> st)\<rparr>"

definition demo_patch :: ustr where
  "demo_patch = ascii ''@@ -10,2 +10,4 @@\<newline> line10\<newline>+added11\<newline>+added12\<newline> line13''"

definition demo_file :: gh_file where
  "demo_file =
     \<lparr>file_filename = Val (ascii ''biz/demo.py''), file_patch = Val demo_patch,
      file_status = Val (ascii ''modified''), file_additions = Val 2, file_deletions = Val 0\<rparr>"

definition demo_change :: change where
  "demo_change =
     \<lparr>old_path = Some (ascii ''biz/demo.py''), new_path = Some (ascii ''biz/demo.py''),
      filename = None, diff = Some demo_patch, patch = None, status = None,
      additions = Some 2, deletions = Some 0\<rparr>"

definition demo_changes :: "change list" where
  "demo_changes = [demo_change]"

text \<open>
  A hunk header whose new start has 4301 digits, and a change with that header as its
  diff.
\<close>

definition overlong_header :: ustr where
  "overlong_header = ascii ''@@ -1 +'' @ replicate 4301 49 @ ascii '' @@''"

definition overlong_changes :: "change list" where
  "overlong_changes = [demo_change\<lparr>diff := Some overlong_header\<rparr>]"

text \<open>
  The patch of a file whose added line holds a form feed followed by the text of that
  header: \<open>splitlines\<close> breaks the line at the form feed, and what follows it is scanned
  as a line of the diff.
\<close>

definition feed_patch :: ustr where
  "feed_patch = ascii ''@@ -1 +1,2 @@\<newline> a\<newline>+b'' @ [12] @ overlong_header"

definition demo_head :: "head_dict field \<Rightarrow> pr_payload" where
  "demo_head head_value =
     \<lparr>pr_pull_request = Val \<lparr>pr_number = Val 99, pr_head = head_value\<rparr>,
      pr_repository = Val \<lparr>pr_full_name = Val (ascii ''owner/repo'')\<rparr>,
      pr_action = Val (ascii ''opened'')\<rparr>"

definition demo_payload :: pr_payload where
  "demo_payload = demo_head (Val \<lparr>pr_sha = Val (ascii ''head_commit_sha'')\<rparr>)"

definition demo_handler :: "pr_payload \<Rightarrow> pull_request_handler" where
  "demo_handler data =
     \<lparr>webhook_data = data, github_token = ascii ''token'',
      github_url = ascii ''https://github.com'',
      event_type = Some (ascii ''pull_request''),
      repo_full_name = Some (ascii ''owner/repo''), pull_request_number = Some 99,
      action = Some (ascii ''opened'')\<rparr>"

definition demo_pull_request :: pull_request_handler where
  "demo_pull_request = demo_handler demo_payload"

definition demo_pull_request_no_head :: pull_request_handler where
  "demo_pull_request_no_head = demo_handler (demo_head Missing)"

definition demo_pull_request_null_head :: pull_request_handler where
  "demo_pull_request_null_head = demo_handler (demo_head Null)"

definition list_demo_files :: effect where
  "list_demo_files = Call (ListPullFiles (Some (ascii ''owner/repo'')) (Some 99))"

definition demo_push :: "ustr \<Rightarrow> ustr \<Rightarrow> bool \<Rightarrow> bool \<Rightarrow> ustr option list \<Rightarrow> push_handler" where
  "demo_push b a c d cs =
     PushHandler
       \<lparr>push_full_name = Some (ascii ''owner/repo''), ref = ascii ''refs/heads/main'',
        before = b, after = a, created = c, deleted = d, commits = cs\<rparr>
       (ascii ''token'') (ascii ''https://github.com'')"


section \<open>Properties of strings and of the conversion to integers\<close>

lemma splitlines_Nil: "splitlines [] = []"
  by (simp add: splitlines_def)

lemma linebreak_space: "is_linebreak c \<Longrightarrow> is_space c"
  by (auto simp: is_linebreak_def is_space_def)

lemma splitlines_from_one_line:
  "\<forall>c \<in> set s. \<not> is_linebreak c \<Longrightarrow> cur @ s \<noteq> [] \<Longrightarrow> splitlines_from cur s = [cur @ s]"
proof (induction s arbitrary: cur)
  case Nil
  then show ?case by simp
next
  case (Cons c cs)
  then have nb: "\<not> is_linebreak c" by simp
  then have "c \<noteq> 13" by (auto simp: is_linebreak_def)
  then have n13: "\<not> (c = 13 \<and> cs \<noteq> [] \<and> hd cs = 10)" by simp
  have "splitlines_from cur (c # cs) = splitlines_from (cur @ [c]) cs"
    by (simp only: splitlines_from.simps if_not_P [OF n13] if_not_P [OF nb])
  also have "\<dots> = [(cur @ [c]) @ cs]"
    using Cons.prems by (intro Cons.IH) simp_all
  finally show ?case by simp
qed

lemma decimal_value_range:
  "decimal_value c = Some v \<Longrightarrow> \<exists>s \<in> set nd_starts. s \<le> c \<and> c < s + 10 \<and> v = c - s"
  by (auto simp: decimal_value_def find_Some_iff split: option.splits)

lemma digit_above: "decimal_value c = Some v \<Longrightarrow> 48 \<le> c"
  by (drule decimal_value_range) (auto simp: nd_starts_def)

lemma digit_not_space: "decimal_value c = Some v \<Longrightarrow> \<not> is_space c"
  by (drule decimal_value_range) (auto simp: nd_starts_def is_space_def)

lemma digit_not_underscore: "decimal_value c = Some v \<Longrightarrow> c \<noteq> 95"
  by (drule decimal_value_range) (auto simp: nd_starts_def)

lemma digit_one: "decimal_value 49 = Some 1" "is_digit 49"
  by (simp_all add: is_digit_def decimal_value_def nd_starts_def)

lemma digit_groups_digits:
  "\<forall>c \<in> set ds. is_digit c \<Longrightarrow>
   digit_groups acc ds =
     Some (foldl (\<lambda>n c. 10 * n + (case decimal_value c of Some d \<Rightarrow> d | None \<Rightarrow> 0)) acc ds)"
proof (induction acc ds rule: digit_groups.induct)
  case (1 acc)
  then show ?case by simp
next
  case (2 acc c)
  then show ?case by (auto simp: is_digit_def)
next
  case (3 acc c d cs)
  from 3(3) obtain v where v: "decimal_value c = Some v"
    by (auto simp: is_digit_def)
  from digit_not_underscore [OF v] have c: "c \<noteq> 95" .
  from 3(2) [OF c v] 3(3) v c show ?case by simp
qed

text \<open>
  On a match of \<open>\d+\<close>, a non-empty run of digits, \<open>int\<close> strips nothing and reads no
  sign: the result is the value of the run when it has at most 4300 digits, and
  \<open>ValueError\<close> when it has more.
\<close>

lemma py_int_run:
  assumes "ds \<noteq> []" and "\<forall>c \<in> set ds. is_digit c"
  shows "py_int ds = map_option int (unsigned_int ds)"
proof -
  from assms obtain c cs where ds: "ds = c # cs"
    by (cases ds) auto
  from assms(2) ds obtain v where v: "decimal_value c = Some v"
    by (auto simp: is_digit_def)
  from assms have "is_digit (last ds)"
    by auto
  then obtain w where w: "decimal_value (last ds) = Some w"
    by (auto simp: is_digit_def)
  have front: "dropWhile int_space ds = ds"
    using digit_not_space [OF v] by (simp add: ds int_space_def)
  have "\<not> int_space (last ds)"
    using digit_not_space [OF w] by (simp add: int_space_def)
  then have behind: "dropWhile int_space (rev ds) = rev ds"
    using assms(1) by (cases "rev ds") (auto simp: last_rev hd_rev [symmetric])
  have sign: "c \<noteq> 45 \<and> c \<noteq> 43"
    using digit_above [OF v] by auto
  have trimmed: "rev (dropWhile int_space (rev (dropWhile int_space ds))) = ds"
    by (simp add: front behind)
  show ?thesis
    unfolding py_int_def trimmed Let_def using sign by (simp add: ds)
qed

lemma filter_digits: "\<forall>c \<in> set ds. is_digit c \<Longrightarrow> filter is_digit ds = ds"
  by (induction ds) simp_all

lemma py_int_digits:
  assumes "ds \<noteq> []" and "\<forall>c \<in> set ds. is_digit c" and "length ds \<le> int_max_str_digits"
  shows "py_int ds = Some (digits_value ds)"
proof -
  from assms obtain c cs where ds: "ds = c # cs"
    by (cases ds) auto
  from assms(2) ds obtain v where v: "decimal_value c = Some v"
    by (auto simp: is_digit_def)
  have "unsigned_int ds = Some (foldl (\<lambda>n c. 10 * n +
           (case decimal_value c of Some d \<Rightarrow> d | None \<Rightarrow> 0)) 0 ds)"
    unfolding unsigned_int_def filter_digits [OF assms(2)]
    using assms(2,3) digit_groups_digits [of cs v] by (simp add: ds v)
  then show ?thesis
    by (simp add: py_int_run [OF assms(1,2)] digits_value_def)
qed

lemma py_int_overlong:
  assumes "\<forall>c \<in> set ds. is_digit c" and "int_max_str_digits < length ds"
  shows "py_int ds = None"
proof -
  from assms(2) have ne: "ds \<noteq> []" by auto
  have "unsigned_int ds = None"
    unfolding unsigned_int_def filter_digits [OF assms(1)] using assms(2) by simp
  then show ?thesis
    by (simp add: py_int_run [OF ne assms(1)])
qed

lemma digits1_digits:
  "digits1 s = Some (ds, r) \<Longrightarrow> ds \<noteq> [] \<and> (\<forall>c \<in> set ds. is_digit c)"
  by (auto simp: digits1_def Let_def split: if_splits dest: set_takeWhileD)

text \<open>So the new start of a hunk header is refused exactly when it is too long.\<close>

lemma hunk_header_match_int:
  assumes "hunk_header_match l = Some g"
  shows "py_int g = (if length g \<le> int_max_str_digits then Some (digits_value g) else None)"
proof -
  from assms have g: "g \<noteq> [] \<and> (\<forall>c \<in> set g. is_digit c)"
    by (auto simp: hunk_header_match_def split: option.splits dest!: digits1_digits)
  show ?thesis
  proof (cases "length g \<le> int_max_str_digits")
    case True
    with g py_int_digits [of g] show ?thesis by simp
  next
    case False
    with g py_int_overlong [of g] show ?thesis by simp
  qed
qed


section \<open>Properties of the position mapper\<close>

lemma addition_not_header: "is_addition l \<Longrightarrow> \<not> is_header l"
  by (cases l) (auto simp: is_addition_def is_header_def startswith_def ascii_def)

lemma deletion_not_addition: "is_deletion l \<Longrightarrow> \<not> is_addition l"
  by (cases l) (auto simp: is_addition_def is_deletion_def startswith_def ascii_def)

text \<open>One iteration: it raises on a header that \<open>int\<close> refuses, and follows the counter
  on every other line.\<close>

lemma scan_line_step:
  "scan_line (acc, cur) l =
     (if header_raises l then Inl ValueError
      else Inr (acc @ (case (if is_addition l then cur else None) of
                         None \<Rightarrow> [] | Some n \<Rightarrow> [n]),
                counter_step cur l))"
proof (cases "is_header l")
  case True
  then have "\<not> is_addition l"
    using addition_not_header by blast
  with True show ?thesis
    by (auto simp: scan_line_def header_raises_def counter_step_def new_start_def is_header_def
        split: option.splits)
next
  case h: False
  show ?thesis
  proof (cases "is_addition l")
    case True
    then have "\<not> is_deletion l"
      using deletion_not_addition by blast
    with True h show ?thesis
      by (auto simp: scan_line_def header_raises_def counter_step_def is_header_def
          is_addition_def split: option.splits)
  next
    case False
    with h show ?thesis
      by (auto simp: scan_line_def header_raises_def counter_step_def is_header_def
          is_addition_def is_deletion_def split: option.splits)
  qed
qed

lemma scan_lines_steps:
  "scan_lines (acc, cur) ls =
     (if \<exists>l \<in> set ls. header_raises l then Inl ValueError
      else Inr (acc @ List.map_filter (\<lambda>(l, cur). if is_addition l then cur else None)
                        (zip ls (counters cur ls)),
                foldl counter_step cur ls))"
proof (induction ls arbitrary: acc cur)
  case Nil
  then show ?case by simp
next
  case (Cons l ls)
  show ?case
  proof (cases "header_raises l")
    case True
    then show ?thesis by (simp add: scan_line_step)
  next
    case False
    then show ?thesis
      by (simp add: scan_line_step Cons.IH split: option.splits)
  qed
qed

text \<open>
  The function as a whole: it raises \<open>ValueError\<close> when the diff has a hunk header whose
  new start \<open>int\<close> refuses, and in every other case it returns the counter values of the
  addition lines.
\<close>

lemma extract_comment_lines_from_diff_cases:
  "extract_comment_lines_from_diff d =
     (if \<exists>l \<in> set (splitlines d). header_raises l then Inl ValueError
      else Inr (recorded (splitlines d)))"
  by (simp add: extract_comment_lines_from_diff_def scan_lines_steps recorded_def splitlines_Nil)

text \<open>
  The new start of a well-formed header is the number after the \<open>+\<close>, not the one after
  the \<open>-\<close>: for digits \<open>a\<close> and \<open>b\<close> and any text behind the header.
\<close>

lemma takeWhile_digits_then:
  "\<forall>c \<in> set ds. is_digit c \<Longrightarrow> \<not> is_digit x \<Longrightarrow>
   takeWhile is_digit (ds @ x # r) = ds \<and> dropWhile is_digit (ds @ x # r) = x # r"
  by (induction ds) simp_all

lemma space_not_digit: "\<not> is_digit 32" "\<not> is_digit 44"
  by (simp_all add: is_digit_def decimal_value_def nd_starts_def)

lemma hunk_header_match_plain:
  assumes "a \<noteq> []" "\<forall>c \<in> set a. is_digit c" "b \<noteq> []" "\<forall>c \<in> set b. is_digit c"
  shows "hunk_header_match (ascii ''@@ -'' @ a @ ascii '' +'' @ b @ ascii '' @@'' @ r) = Some b"
proof -
  have a: "digits1 (a @ 32 # 43 # b @ 32 # 64 # 64 # r) = Some (a, 32 # 43 # b @ 32 # 64 # 64 # r)"
    using takeWhile_digits_then [OF assms(2) space_not_digit(1)] assms(1)
    by (simp add: digits1_def)
  have b: "digits1 (b @ 32 # 64 # 64 # r) = Some (b, 32 # 64 # 64 # r)"
    using takeWhile_digits_then [OF assms(4) space_not_digit(1)] assms(3)
    by (simp add: digits1_def)
  show ?thesis
    by (simp add: hunk_header_match_def lit_def startswith_def ascii_def opt_count_def a b)
qed

lemma hunk_header_match_counts:
  assumes "a \<noteq> []" "\<forall>c \<in> set a. is_digit c" "b \<noteq> []" "\<forall>c \<in> set b. is_digit c"
      and "m \<noteq> []" "\<forall>c \<in> set m. is_digit c" "n \<noteq> []" "\<forall>c \<in> set n. is_digit c"
  shows "hunk_header_match
           (ascii ''@@ -'' @ a @ ascii '','' @ m @ ascii '' +'' @ b @ ascii '','' @ n @ ascii '' @@'' @ r)
         = Some b"
proof -
  have a: "digits1 (a @ 44 # m @ 32 # 43 # b @ 44 # n @ 32 # 64 # 64 # r) =
             Some (a, 44 # m @ 32 # 43 # b @ 44 # n @ 32 # 64 # 64 # r)"
    using takeWhile_digits_then [OF assms(2) space_not_digit(2)] assms(1)
    by (simp add: digits1_def)
  have m: "digits1 (m @ 32 # 43 # b @ 44 # n @ 32 # 64 # 64 # r) =
             Some (m, 32 # 43 # b @ 44 # n @ 32 # 64 # 64 # r)"
    using takeWhile_digits_then [OF assms(6) space_not_digit(1)] assms(5)
    by (simp add: digits1_def)
  have b: "digits1 (b @ 44 # n @ 32 # 64 # 64 # r) = Some (b, 44 # n @ 32 # 64 # 64 # r)"
    using takeWhile_digits_then [OF assms(4) space_not_digit(2)] assms(3)
    by (simp add: digits1_def)
  have n: "digits1 (n @ 32 # 64 # 64 # r) = Some (n, 32 # 64 # 64 # r)"
    using takeWhile_digits_then [OF assms(8) space_not_digit(1)] assms(7)
    by (simp add: digits1_def)
  show ?thesis
    by (simp add: hunk_header_match_def lit_def startswith_def ascii_def opt_count_def a m b n)
qed

lemmas diff_eval =
  extract_comment_lines_from_diff_def ascii_def splitlines_def scan_line_def startswith_def
  is_linebreak_def hunk_header_match_def lit_def digits1_def opt_count_def is_digit_def
  decimal_value_def nd_starts_def py_or_def new_start_def py_int_def unsigned_int_def
  int_max_str_digits_def int_space_def is_space_def

lemma overlong_header_split: "splitlines overlong_header = [overlong_header]"
proof -
  have "\<forall>c \<in> set overlong_header. \<not> is_linebreak c"
    by (auto simp: overlong_header_def ascii_def is_linebreak_def)
  moreover have "overlong_header \<noteq> []"
    by (simp add: overlong_header_def ascii_def)
  ultimately show ?thesis
    using splitlines_from_one_line [of overlong_header "[]"] by (simp add: splitlines_def)
qed

lemma overlong_header_match: "hunk_header_match overlong_header = Some (replicate 4301 49)"
proof -
  have "hunk_header_match (ascii ''@@ -'' @ [49] @ ascii '' +'' @ replicate 4301 49 @ ascii '' @@'' @ [])
          = Some (replicate 4301 49)"
    by (rule hunk_header_match_plain) (simp_all add: digit_one)
  then show ?thesis
    by (simp add: overlong_header_def ascii_def)
qed

lemma overlong_int: "py_int (replicate 4301 49) = None"
  by (rule py_int_overlong) (simp_all add: digit_one int_max_str_digits_def)

lemma overlong_header_nonempty: "overlong_header \<noteq> []"
  by (simp add: overlong_header_def ascii_def)

lemma overlong_header_raises: "header_raises overlong_header"
proof -
  have "is_header overlong_header"
    by (simp add: is_header_def overlong_header_def startswith_def ascii_def)
  then show ?thesis
    unfolding header_raises_def overlong_header_match by (simp add: overlong_int)
qed

lemma overlong_lines: "extract_comment_lines_from_diff overlong_header = Inl ValueError"
  using overlong_header_raises
  by (simp add: extract_comment_lines_from_diff_cases overlong_header_split)

lemma overlong_positions: "extract_review_positions overlong_changes = Inl ValueError"
  using overlong_header_nonempty
  by (simp add: overlong_changes_def demo_change_def py_or_def overlong_lines ascii_def)

lemma feed_patch_lines:
  "splitlines feed_patch =
     [ascii ''@@ -1 +1,2 @@'', ascii '' a'', ascii ''+b'', overlong_header]"
  using overlong_header_split
  by (simp add: feed_patch_def splitlines_def ascii_def is_linebreak_def)

lemma feed_patch_raises: "extract_comment_lines_from_diff feed_patch = Inl ValueError"
  using overlong_header_raises
  by (simp add: extract_comment_lines_from_diff_cases feed_patch_lines)

text \<open>
  Claim C1 does not hold of the code. It says that every diff is mapped to positions
  and that a malformed diff gives the empty list and never an error; but
  \<open>int(match.group(1))\<close> at line 210 is not guarded, and \<open>int\<close> refuses more than 4300
  digits. The diff that is the one line \<open>@@ -1 +N @@\<close>, with \<open>N\<close> a run of 4301 digits
  \<open>1\<close>, matches the pattern of the header with \<open>N\<close> as its group 1, and the function
  raises \<open>ValueError\<close>; so does \<open>_extract_review_positions\<close> on a change with this diff.
  The header need not be a line of the patch: in the patch of a file whose added line
  holds a form feed followed by the text of the header, \<open>splitlines\<close> makes it one.
  The other call of \<open>int\<close> in the handler, at line 269, is guarded by
  \<open>except ValueError\<close> (the model of it is \<open>max_comments\<close>); this one is not.
\<close>

theorem extract_comment_lines_from_diff_overlong:
  "hunk_header_match overlong_header = Some (replicate 4301 49) \<and>
   py_int (replicate 4301 49) = None \<and>
   extract_comment_lines_from_diff overlong_header = Inl ValueError \<and>
   extract_review_positions overlong_changes = Inl ValueError \<and>
   splitlines feed_patch =
     [ascii ''@@ -1 +1,2 @@'', ascii '' a'', ascii ''+b'', overlong_header] \<and>
   extract_comment_lines_from_diff feed_patch = Inl ValueError"
  using overlong_header_match overlong_int overlong_lines overlong_positions
    feed_patch_lines feed_patch_raises
  by simp

lemma demo_lines: "extract_comment_lines_from_diff demo_patch = Inr [11, 12]"
  by (simp add: demo_patch_def diff_eval)

lemma scenario_lines:
  "extract_comment_lines_from_diff
     (ascii ''@@ -1,2 +1,4 @@\<newline>line1\<newline>+line2\<newline>+line3\<newline>-line4'') = Inr [2, 3]"
  by (simp add: diff_eval)

lemma new_start_not_old_start:
  "extract_comment_lines_from_diff (ascii ''@@ -3,2 +10,4 @@\<newline>+x\<newline> y\<newline>-z\<newline>+w'') =
     Inr [10, 12]"
  by (simp add: diff_eval)


section \<open>Properties of the retrieval of pull request changes\<close>

lemma attempts3: "[0..<max_retries] = [0, 1, 2]"
  by (simp add: max_retries_def upt_rec)

lemma constructed_event_type:
  "PullRequestHandler data token url = Inr h \<Longrightarrow> event_type h = Some (ascii ''pull_request'')"
  by (auto simp: PullRequestHandler_def split: sum.splits)

lemma get_pull_request_changes_unfold:
  "PullRequestHandler data token url = Inr h \<Longrightarrow>
   get_pull_request_changes gh h tr = pull_request_changes_loop gh h [0, 1, 2] tr"
  by (simp add: get_pull_request_changes_def constructed_event_type attempts3)

lemma demo_construction:
  "PullRequestHandler demo_payload (ascii ''token'') (ascii ''https://github.com'') =
     Inr demo_pull_request"
  by (simp add: PullRequestHandler_def pull_request_number_of_def repo_full_name_of_def
      demo_payload_def demo_head_def demo_pull_request_def demo_handler_def)

lemma demo_conversion: "file_to_change demo_file = demo_change"
  by (simp add: file_to_change_def demo_file_def demo_change_def)

text \<open>
  Claim C5. \<open>get_pull_request_changes\<close>, on a handler that the constructor has built,
  lists the files up to three times. With \<open>r1\<close>, \<open>r2\<close> and \<open>r3\<close> the answers to the
  first, second and third call: an answer with a status other than 200 ends the
  retrieval with the empty list and no further call; an answer with status 200 and
  files ends it with the converted files; an answer with status 200 and no files is
  followed by a pause of 10 and the next call, and after the third such answer (and its
  pause) the result is the empty list. No error is raised. So two empty answers and a
  third with files make exactly three calls, and the files of the third are returned.
  Never more than three calls are made. A converted file is the change with the file
  name as old and as new path, the patch as diff (the empty text when the file has no
  patch) and the numbers of additions and deletions (0 when the file has none); a key
  that holds null gives \<open>None\<close>.
\<close>

theorem get_pull_request_changes_attempts:
  fixes gh h tr
  assumes "PullRequestHandler data token url = Inr h"
  defines "rq \<equiv> ListPullFiles (repo_full_name h) (pull_request_number h)"
  defines "t1 \<equiv> tr @ [Call rq]"
  defines "t2 \<equiv> tr @ [Call rq, Sleep 10, Call rq]"
  defines "t3 \<equiv> tr @ [Call rq, Sleep 10, Call rq, Sleep 10, Call rq]"
  defines "r1 \<equiv> get_files gh tr rq"
  defines "r2 \<equiv> get_files gh (tr @ [Call rq, Sleep 10]) rq"
  defines "r3 \<equiv> get_files gh (tr @ [Call rq, Sleep 10, Call rq, Sleep 10]) rq"
  shows
  "(status_code r1 \<noteq> 200 \<longrightarrow> get_pull_request_changes gh h tr = ([], t1)) \<and>
   (status_code r1 = 200 \<and> json r1 \<noteq> [] \<longrightarrow>
      get_pull_request_changes gh h tr = (map file_to_change (json r1), t1)) \<and>
   (status_code r1 = 200 \<and> json r1 = [] \<and> status_code r2 \<noteq> 200 \<longrightarrow>
      get_pull_request_changes gh h tr = ([], t2)) \<and>
   (status_code r1 = 200 \<and> json r1 = [] \<and> status_code r2 = 200 \<and> json r2 \<noteq> [] \<longrightarrow>
      get_pull_request_changes gh h tr = (map file_to_change (json r2), t2)) \<and>
   (status_code r1 = 200 \<and> json r1 = [] \<and> status_code r2 = 200 \<and> json r2 = [] \<and>
    status_code r3 \<noteq> 200 \<longrightarrow>
      get_pull_request_changes gh h tr = ([], t3)) \<and>
   (status_code r1 = 200 \<and> json r1 = [] \<and> status_code r2 = 200 \<and> json r2 = [] \<and>
    status_code r3 = 200 \<and> json r3 \<noteq> [] \<longrightarrow>
      get_pull_request_changes gh h tr = (map file_to_change (json r3), t3)) \<and>
   (status_code r1 = 200 \<and> json r1 = [] \<and> status_code r2 = 200 \<and> json r2 = [] \<and>
    status_code r3 = 200 \<and> json r3 = [] \<longrightarrow>
      get_pull_request_changes gh h tr = ([], t3 @ [Sleep 10])) \<and>
   length (filter is_call (drop (length tr) (snd (get_pull_request_changes gh h tr)))) \<le> 3 \<and>
   (\<forall>name p s a d.
      file_to_change
        \<lparr>file_filename = name, file_patch = p, file_status = s, file_additions = a,
         file_deletions = d\<rparr> =
        \<lparr>old_path = (case name of Val x \<Rightarrow> Some x | _ \<Rightarrow> None),
         new_path = (case name of Val x \<Rightarrow> Some x | _ \<Rightarrow> None),
         filename = None,
         diff = (case p of Missing \<Rightarrow> Some [] | Null \<Rightarrow> None | Val x \<Rightarrow> Some x),
         patch = None,
         status = None,
         additions = (case a of Missing \<Rightarrow> Some 0 | Null \<Rightarrow> None | Val x \<Rightarrow> Some x),
         deletions = (case d of Missing \<Rightarrow> Some 0 | Null \<Rightarrow> None | Val x \<Rightarrow> Some x)\<rparr>)"
proof -
  have conv: "file_to_change
        \<lparr>file_filename = name, file_patch = p, file_status = s, file_additions = a,
         file_deletions = d\<rparr> =
        \<lparr>old_path = (case name of Val x \<Rightarrow> Some x | _ \<Rightarrow> None),
         new_path = (case name of Val x \<Rightarrow> Some x | _ \<Rightarrow> None),
         filename = None,
         diff = (case p of Missing \<Rightarrow> Some [] | Null \<Rightarrow> None | Val x \<Rightarrow> Some x),
         patch = None,
         status = None,
         additions = (case a of Missing \<Rightarrow> Some 0 | Null \<Rightarrow> None | Val x \<Rightarrow> Some x),
         deletions = (case d of Missing \<Rightarrow> Some 0 | Null \<Rightarrow> None | Val x \<Rightarrow> Some x)\<rparr>"
    for name p s a d
    by (simp add: file_to_change_def split: field.splits)
  have loop: "get_pull_request_changes gh h tr = pull_request_changes_loop gh h [0, 1, 2] tr"
    by (rule get_pull_request_changes_unfold [OF assms(1)])
  have traces: "(status_code r1 \<noteq> 200 \<longrightarrow> get_pull_request_changes gh h tr = ([], t1)) \<and>
   (status_code r1 = 200 \<and> json r1 \<noteq> [] \<longrightarrow>
      get_pull_request_changes gh h tr = (map file_to_change (json r1), t1)) \<and>
   (status_code r1 = 200 \<and> json r1 = [] \<and> status_code r2 \<noteq> 200 \<longrightarrow>
      get_pull_request_changes gh h tr = ([], t2)) \<and>
   (status_code r1 = 200 \<and> json r1 = [] \<and> status_code r2 = 200 \<and> json r2 \<noteq> [] \<longrightarrow>
      get_pull_request_changes gh h tr = (map file_to_change (json r2), t2)) \<and>
   (status_code r1 = 200 \<and> json r1 = [] \<and> status_code r2 = 200 \<and> json r2 = [] \<and>
    status_code r3 \<noteq> 200 \<longrightarrow>
      get_pull_request_changes gh h tr = ([], t3)) \<and>
   (status_code r1 = 200 \<and> json r1 = [] \<and> status_code r2 = 200 \<and> json r2 = [] \<and>
    status_code r3 = 200 \<and> json r3 \<noteq> [] \<longrightarrow>
      get_pull_request_changes gh h tr = (map file_to_change (json r3), t3)) \<and>
   (status_code r1 = 200 \<and> json r1 = [] \<and> status_code r2 = 200 \<and> json r2 = [] \<and>
    status_code r3 = 200 \<and> json r3 = [] \<longrightarrow>
      get_pull_request_changes gh h tr = ([], t3 @ [Sleep 10])) \<and>
   length (filter is_call (drop (length tr) (snd (get_pull_request_changes gh h tr)))) \<le> 3"
    unfolding loop
    by (simp add: Let_def rq_def t1_def t2_def t3_def r1_def r2_def r3_def retry_delay_def)
  from traces conv show ?thesis by blast
qed

lemmas witness_eval = demo_pull_request_def demo_handler_def scripted_def list_demo_files_def

theorem get_pull_request_changes_attempts_witness:
  "PullRequestHandler demo_payload (ascii ''token'') (ascii ''https://github.com'') =
     Inr demo_pull_request \<and>
   get_pull_request_changes (scripted [(200, []), (200, []), (200, [demo_file])] (404, []) (404, []) [])
     demo_pull_request [] =
     ([demo_change],
      [list_demo_files, Sleep 10, list_demo_files, Sleep 10, list_demo_files]) \<and>
   get_pull_request_changes (scripted [(200, []), (200, []), (200, [])] (404, []) (404, []) [])
     demo_pull_request [] =
     ([], [list_demo_files, Sleep 10, list_demo_files, Sleep 10, list_demo_files, Sleep 10]) \<and>
   get_pull_request_changes (scripted [(200, []), (200, []), (500, [])] (404, []) (404, []) [])
     demo_pull_request [] =
     ([], [list_demo_files, Sleep 10, list_demo_files, Sleep 10, list_demo_files]) \<and>
   get_pull_request_changes (scripted [(200, []), (200, [demo_file])] (404, []) (404, []) [])
     demo_pull_request [] =
     ([demo_change], [list_demo_files, Sleep 10, list_demo_files]) \<and>
   get_pull_request_changes (scripted [(200, []), (403, [demo_file])] (404, []) (404, []) [])
     demo_pull_request [] =
     ([], [list_demo_files, Sleep 10, list_demo_files]) \<and>
   get_pull_request_changes (scripted [(200, [demo_file])] (404, []) (404, []) [])
     demo_pull_request [] =
     ([demo_change], [list_demo_files]) \<and>
   get_pull_request_changes (scripted [(500, [demo_file])] (404, []) (404, []) [])
     demo_pull_request [] =
     ([], [list_demo_files])"
proof -
  have c1: "get_pull_request_changes (scripted [(200, []), (200, []), (200, [demo_file])] (404, []) (404, []) [])
     demo_pull_request [] =
     ([demo_change],
      [list_demo_files, Sleep 10, list_demo_files, Sleep 10, list_demo_files])"
    using get_pull_request_changes_attempts
      [OF demo_construction, where gh = "scripted [(200, []), (200, []), (200, [demo_file])] (404, []) (404, []) []" and tr = "[]"]
    by (simp add: witness_eval demo_conversion)
  have c2: "get_pull_request_changes (scripted [(200, []), (200, []), (200, [])] (404, []) (404, []) [])
     demo_pull_request [] =
     ([], [list_demo_files, Sleep 10, list_demo_files, Sleep 10, list_demo_files, Sleep 10])"
    using get_pull_request_changes_attempts
      [OF demo_construction, where gh = "scripted [(200, []), (200, []), (200, [])] (404, []) (404, []) []" and tr = "[]"]
    by (simp add: witness_eval demo_conversion)
  have c3: "get_pull_request_changes (scripted [(200, []), (200, []), (500, [])] (404, []) (404, []) [])
     demo_pull_request [] =
     ([], [list_demo_files, Sleep 10, list_demo_files, Sleep 10, list_demo_files])"
    using get_pull_request_changes_attempts
      [OF demo_construction, where gh = "scripted [(200, []), (200, []), (500, [])] (404, []) (404, []) []" and tr = "[]"]
    by (simp add: witness_eval demo_conversion)
  have c4: "get_pull_request_changes (scripted [(200, []), (200, [demo_file])] (404, []) (404, []) [])
     demo_pull_request [] =
     ([demo_change], [list_demo_files, Sleep 10, list_demo_files])"
    using get_pull_request_changes_attempts
      [OF demo_construction, where gh = "scripted [(200, []), (200, [demo_file])] (404, []) (404, []) []" and tr = "[]"]
    by (simp add: witness_eval demo_conversion)
  have c5: "get_pull_request_changes (scripted [(200, []), (403, [demo_file])] (404, []) (404, []) [])
     demo_pull_request [] =
     ([], [list_demo_files, Sleep 10, list_demo_files])"
    using get_pull_request_changes_attempts
      [OF demo_construction, where gh = "scripted [(200, []), (403, [demo_file])] (404, []) (404, []) []" and tr = "[]"]
    by (simp add: witness_eval demo_conversion)
  have c6: "get_pull_request_changes (scripted [(200, [demo_file])] (404, []) (404, []) [])
     demo_pull_request [] =
     ([demo_change], [list_demo_files])"
    using get_pull_request_changes_attempts
      [OF demo_construction, where gh = "scripted [(200, [demo_file])] (404, []) (404, []) []" and tr = "[]"]
    by (simp add: witness_eval demo_conversion)
  have c7: "get_pull_request_changes (scripted [(500, [demo_file])] (404, []) (404, []) [])
     demo_pull_request [] =
     ([], [list_demo_files])"
    using get_pull_request_changes_attempts
      [OF demo_construction, where gh = "scripted [(500, [demo_file])] (404, []) (404, []) []" and tr = "[]"]
    by (simp add: witness_eval demo_conversion)
  from demo_construction c1 c2 c3 c4 c5 c6 c7 show ?thesis by blast
qed


section \<open>Properties of the push handler\<close>

lemmas push_eval = get_push_changes_def PushHandler_def demo_push_def get_parent_commit_id_def
  repository_compare_def scripted_def compare_file_to_diff_def demo_file_def ascii_def Let_def

text \<open>
  Claim C10. A push event with an empty list of commits: \<open>get_push_changes\<close> returns the
  empty list and sends no request at all (the effects are those before the call),
  whatever \<open>before\<close>, \<open>after\<close>, \<open>created\<close> and \<open>deleted\<close> are.
\<close>

theorem get_push_changes_no_commits:
  "commits data = [] \<Longrightarrow> get_push_changes gh (PushHandler data token url) tr = ([], tr)"
  by (simp add: get_push_changes_def PushHandler_def)

theorem get_push_changes_no_commits_witness:
  "commits \<lparr>push_full_name = Some (ascii ''owner/repo''), ref = ascii ''refs/heads/main'',
            before = ascii ''aaa'', after = ascii ''bbb'', created = True, deleted = True,
            commits = []\<rparr> = [] \<and>
   get_push_changes (scripted [] (200, [Some (ascii ''ppp'')]) (200, [demo_file]) [])
     (PushHandler
        \<lparr>push_full_name = Some (ascii ''owner/repo''), ref = ascii ''refs/heads/main'',
         before = ascii ''aaa'', after = ascii ''bbb'', created = True, deleted = True,
         commits = []\<rparr> (ascii ''token'') (ascii ''https://github.com'')) [] = ([], [])"
  using get_push_changes_no_commits
    [of "\<lparr>push_full_name = Some (ascii ''owner/repo''), ref = ascii ''refs/heads/main'',
            before = ascii ''aaa'', after = ascii ''bbb'', created = True, deleted = True,
            commits = []\<rparr>"
        "scripted [] (200, [Some (ascii ''ppp'')]) (200, [demo_file]) []"
        "ascii ''token''" "ascii ''https://github.com''" "[]"]
  by simp

text \<open>
  Claim C6, as stated, fails: \<open>deleted\<close> is looked at only when \<open>before\<close> and \<open>after\<close> are
  both present and \<open>created\<close> is not set. A push with \<open>deleted: true\<close> and \<open>created: true\<close>
  is compared (after a lookup of the parent of its first commit), and a push with
  \<open>deleted: true\<close> and no \<open>before\<close> is compared commit by commit.
\<close>

theorem get_push_changes_deleted_counterexample:
  "deleted (push_webhook_data
      (demo_push (ascii ''aaa'') (ascii ''bbb'') True True [Some (ascii ''bbb'')])) \<and>
   get_push_changes (scripted [] (200, [Some (ascii ''ppp'')]) (200, [demo_file]) [])
      (demo_push (ascii ''aaa'') (ascii ''bbb'') True True [Some (ascii ''bbb'')]) [] =
     ([compare_file_to_diff demo_file],
      [Call (CommitLookup (Some (ascii ''owner/repo'')) (ascii ''bbb'')),
       Call (CompareRefs (Some (ascii ''owner/repo'')) (ascii ''ppp'') (ascii ''bbb''))]) \<and>
   deleted (push_webhook_data (demo_push [] (ascii ''bbb'') False True [Some (ascii ''bbb'')])) \<and>
   get_push_changes (scripted [] (200, [Some (ascii ''ppp'')]) (200, [demo_file]) [])
      (demo_push [] (ascii ''bbb'') False True [Some (ascii ''bbb'')]) [] =
     ([compare_file_to_diff demo_file],
      [Call (CommitLookup (Some (ascii ''owner/repo'')) (ascii ''bbb'')),
       Call (CompareRefs (Some (ascii ''owner/repo'')) (ascii ''ppp'') (ascii ''bbb''))])"
  by (simp add: push_eval)

text \<open>
  Claim C6, amended. A push event that carries \<open>deleted: true\<close>, and either has no
  commits or has both \<open>before\<close> and \<open>after\<close> and does not carry \<open>created: true\<close>:
  \<open>get_push_changes\<close> returns the empty list and sends no request, so no comparison.
\<close>

theorem get_push_changes_deleted:
  "deleted data \<Longrightarrow>
   commits data = [] \<or> (before data \<noteq> [] \<and> after data \<noteq> [] \<and> \<not> created data) \<Longrightarrow>
   get_push_changes gh (PushHandler data token url) tr = ([], tr) \<and>
   filter is_compare (snd (get_push_changes gh (PushHandler data token url) tr)) =
     filter is_compare tr"
  by (auto simp: get_push_changes_def PushHandler_def)

theorem get_push_changes_deleted_witness:
  "deleted \<lparr>push_full_name = Some (ascii ''owner/repo''), ref = ascii ''refs/heads/main'',
            before = ascii ''aaa'', after = ascii ''bbb'', created = False, deleted = True,
            commits = [Some (ascii ''bbb'')]\<rparr> \<and>
   before \<lparr>push_full_name = Some (ascii ''owner/repo''), ref = ascii ''refs/heads/main'',
            before = ascii ''aaa'', after = ascii ''bbb'', created = False, deleted = True,
            commits = [Some (ascii ''bbb'')]\<rparr> = ascii ''aaa'' \<and>
   get_push_changes (scripted [] (200, [Some (ascii ''ppp'')]) (200, [demo_file]) [])
     (PushHandler
        \<lparr>push_full_name = Some (ascii ''owner/repo''), ref = ascii ''refs/heads/main'',
         before = ascii ''aaa'', after = ascii ''bbb'', created = False, deleted = True,
         commits = [Some (ascii ''bbb'')]\<rparr> (ascii ''token'') (ascii ''https://github.com'')) [] =
     ([], [])"
  using get_push_changes_deleted
    [of "\<lparr>push_full_name = Some (ascii ''owner/repo''), ref = ascii ''refs/heads/main'',
            before = ascii ''aaa'', after = ascii ''bbb'', created = False, deleted = True,
            commits = [Some (ascii ''bbb'')]\<rparr>"
        "scripted [] (200, [Some (ascii ''ppp'')]) (200, [demo_file]) []"
        "ascii ''token''" "ascii ''https://github.com''" "[]"]
  by (simp add: ascii_def)


section \<open>Properties of the delivery of comments\<close>

lemmas str_eval = ascii_def strip_def lstrip_def rstrip_def is_space_def startswith_def
  splitlines_def is_linebreak_def

lemmas split_eval = split_review_to_comments_def remove_marker_def ci_match_def
  truncate_score_def score_section_start_def score_marker_at_def add_bullet_item_def
  bullet_match_def ordered_match_def digits1_def is_digit_def decimal_value_def nd_starts_def
  dot_plus_end_def add_block_def section_titles_def last_newline_def Let_def

lemmas int_eval = max_comments_def py_int_def unsigned_int_def int_max_str_digits_def
  int_space_def is_digit_def decimal_value_def nd_starts_def is_space_def ascii_def

lemma post_review_comments_enumerate:
  "post_review_comments gh h sha ps (List.enumerate k cs) (sc, tr) =
     (sc + successes gh tr (map (\<lambda>(i, c). inline_request h sha ps i c) (List.enumerate k cs)),
      tr @ map Call (map (\<lambda>(i, c). inline_request h sha ps i c) (List.enumerate k cs)))"
proof (induction cs arbitrary: k sc tr)
  case Nil
  then show ?case by simp
next
  case (Cons c cs)
  show ?case
    by (simp add: Cons.IH Let_def inline_request_def)
qed

lemma enumerate_requests:
  "map (\<lambda>(i, c). inline_request h sha ps i c) (List.enumerate 0 cs) = inline_requests h sha ps cs"
  by (rule nth_equalityI) (simp_all add: inline_requests_def nth_enumerate_eq)

lemma post_review_comments_all:
  "post_review_comments gh h sha ps (List.enumerate 0 cs) (0, tr) =
     (successes gh tr (inline_requests h sha ps cs), tr @ map Call (inline_requests h sha ps cs))"
  by (simp add: post_review_comments_enumerate enumerate_requests)

lemma capped_nonempty: "review_comments r \<noteq> [] \<Longrightarrow> capped_comments env r \<noteq> []"
  by (cases "review_comments r")
     (auto simp: capped_comments_def take_Cons' nat_le_iff split: if_splits)

lemma length_inline_requests [simp]: "length (inline_requests h sha ps cs) = length cs"
  by (simp add: inline_requests_def)

lemma filter_inline_requests [simp]:
  "filter is_review_comment (map Call (inline_requests h sha ps cs)) =
     map Call (inline_requests h sha ps cs)"
  by (simp add: inline_requests_def inline_request_def filter_map o_def)

lemma inline_requests_inline:
  "rq \<in> set (inline_requests h sha ps cs) \<Longrightarrow> is_review_comment (Call rq)"
  by (auto simp: inline_requests_def inline_request_def)

lemma issue_comment_not_inline [simp]: "\<not> is_review_comment (issue_comment h r)"
  by (simp add: issue_comment_def)

lemma add_pull_request_notes_fallback:
  assumes "review_comments r \<noteq> []"
      and "head_commit_id_of (webhook_data h) = Inr commit"
      and "extract_review_positions changes = Inr ps"
      and "commit = None \<or> commit = Some [] \<or> ps = []"
  shows "add_pull_request_notes gh env h r changes tr = Inr (tr @ [issue_comment h r])"
  using assms
  by (auto simp: add_pull_request_notes_def Let_def add_pull_request_issue_comment_def
      issue_comment_def split: option.splits)

lemma add_pull_request_notes_inline:
  assumes "review_comments r \<noteq> []"
      and "head_commit_id_of (webhook_data h) = Inr (Some sha)" and "sha \<noteq> []"
      and "extract_review_positions changes = Inr ps" and "ps \<noteq> []"
  shows "add_pull_request_notes gh env h r changes tr =
           Inr (tr @ map Call (inline_requests h sha ps (capped_comments env r)) @
                (if successes gh tr (inline_requests h sha ps (capped_comments env r)) = 0
                 then [issue_comment h r] else []))"
  using assms
  by (simp add: add_pull_request_notes_def Let_def add_pull_request_issue_comment_def
      issue_comment_def post_review_comments_all capped_comments_def)

lemma add_pull_request_notes_raises:
  assumes "review_comments r \<noteq> []"
  shows "head_commit_id_of (webhook_data h) = Inl e \<Longrightarrow>
           add_pull_request_notes gh env h r changes tr = Inl e"
    and "head_commit_id_of (webhook_data h) = Inr commit \<Longrightarrow>
         extract_review_positions changes = Inl e \<Longrightarrow>
           add_pull_request_notes gh env h r changes tr = Inl e"
  using assms by (simp_all add: add_pull_request_notes_def Let_def)

lemma demo_patch_nonempty: "demo_patch \<noteq> []"
  by (simp add: demo_patch_def ascii_def)

lemma demo_positions:
  "extract_review_positions demo_changes =
     Inr [\<lparr>path = ascii ''biz/demo.py'', line = 11\<rparr>, \<lparr>path = ascii ''biz/demo.py'', line = 12\<rparr>]"
  using demo_patch_nonempty
  by (simp add: demo_changes_def demo_change_def py_or_def demo_lines) (simp add: ascii_def)

lemma demo_review5:
  "review_comments (ascii ''1. a\<newline>2. b\<newline>3. c\<newline>4. d\<newline>5. e'') =
     [ascii ''a'', ascii ''b'', ascii ''c'', ascii ''d'', ascii ''e'']"
  by (simp add: review_comments_def str_eval split_eval)

lemma demo_review2:
  "review_comments (ascii ''1. a\<newline>2. b'') = [ascii ''a'', ascii ''b'']"
  by (simp add: review_comments_def str_eval split_eval)

lemma demo_fields:
  "head_commit_id_of (webhook_data demo_pull_request) = Inr (Some (ascii ''head_commit_sha''))"
  "head_commit_id_of (webhook_data demo_pull_request_no_head) = Inr None"
  "head_commit_id_of (webhook_data demo_pull_request_null_head) = Inl AttributeError"
  "repo_full_name demo_pull_request = Some (ascii ''owner/repo'')"
  "pull_request_number demo_pull_request = Some 99"
  "repo_full_name demo_pull_request_no_head = Some (ascii ''owner/repo'')"
  "pull_request_number demo_pull_request_no_head = Some 99"
  by (simp_all add: demo_pull_request_def demo_pull_request_no_head_def
      demo_pull_request_null_head_def demo_handler_def demo_payload_def demo_head_def
      head_commit_id_of_def)

lemma upt_five: "[0..<5] = [0, 1, 2, 3, 4]"
  by (simp add: upt_rec eval_nat_numeral)


lemma max_comments_default: "max_comments None = 20"
  by (simp add: int_eval)

lemma max_comments_zero: "max_comments (Some (ascii ''0'')) = 0"
  by (simp add: int_eval)

lemma sha_nonempty: "ascii ''head_commit_sha'' \<noteq> []"
  by (simp add: ascii_def)

text \<open>
  Where line 274 and line 275 do not raise: with comments, the effects are exactly the
  one aggregate comment if and only if the head commit id is absent (the key is missing,
  or the value is null or the empty text) or there are no positions; otherwise one
  inline comment is sent for each capped comment.
\<close>

lemma add_pull_request_notes_fallback_iff:
  assumes "review_comments r \<noteq> []"
      and "head_commit_id_of (webhook_data h) = Inr commit"
      and "extract_review_positions changes = Inr ps"
  shows
  "(add_pull_request_notes gh env h r changes tr = Inr (tr @ [issue_comment h r]) \<longleftrightarrow>
      commit = None \<or> commit = Some [] \<or> ps = []) \<and>
   (\<not> (commit = None \<or> commit = Some [] \<or> ps = []) \<longrightarrow>
      (\<exists>res. add_pull_request_notes gh env h r changes tr = Inr res \<and>
         length (filter is_review_comment (drop (length tr) res)) =
           length (capped_comments env r)) \<and>
      capped_comments env r \<noteq> [])"
proof (cases "commit = None \<or> commit = Some [] \<or> ps = []")
  case True
  with add_pull_request_notes_fallback [OF assms True] show ?thesis by simp
next
  case False
  then obtain sha where sha: "commit = Some sha" "sha \<noteq> []" and ps: "ps \<noteq> []"
    by auto
  let ?reqs = "inline_requests h sha ps (capped_comments env r)"
  have res: "add_pull_request_notes gh env h r changes tr =
      Inr (tr @ map Call ?reqs @ (if successes gh tr ?reqs = 0 then [issue_comment h r] else []))"
    using add_pull_request_notes_inline [OF assms(1) _ sha(2) assms(3) ps] assms(2) sha(1)
    by simp
  have ne: "capped_comments env r \<noteq> []"
    by (rule capped_nonempty [OF assms(1)])
  then obtain rq rqs where rq: "?reqs = rq # rqs"
    by (cases ?reqs) (auto simp: inline_requests_def)
  have "rq \<in> set ?reqs"
    unfolding rq by simp
  then have "is_review_comment (Call rq)"
    by (rule inline_requests_inline)
  then have "Call rq \<noteq> issue_comment h r"
    using issue_comment_not_inline [of h r] by auto
  then have neq: "add_pull_request_notes gh env h r changes tr \<noteq> Inr (tr @ [issue_comment h r])"
    unfolding res rq by simp
  have cnt: "\<exists>res. add_pull_request_notes gh env h r changes tr = Inr res \<and>
         length (filter is_review_comment (drop (length tr) res)) =
           length (capped_comments env r)"
    unfolding res by simp
  from False neq ne cnt show ?thesis by blast
qed

text \<open>
  Claim C2 does not hold of the code. It says that, with comments to send, the aggregate
  comment is sent when the head commit id is absent and inline delivery is attempted
  otherwise. But line 274 reads the id as
  \<open>webhook_data.get('pull_request', {}).get('head', {}).get('sha')\<close>, and the default
  \<open>{}\<close> covers a missing \<open>head\<close> only: for a payload in which \<open>pull_request.head\<close> is null
  (a payload that the constructor accepts) the call raises \<open>AttributeError\<close> and sends
  nothing, where the claim asks for the aggregate comment. And with a head commit id,
  line 275 raises \<open>ValueError\<close> on a change whose hunk header has a new start of more
  than 4300 digits (the failure of claim C1), where the claim asks for a delivery.
\<close>

theorem add_pull_request_notes_null_head:
  "PullRequestHandler (demo_head Null) (ascii ''token'') (ascii ''https://github.com'') =
     Inr demo_pull_request_null_head \<and>
   review_comments (ascii ''1. a\<newline>2. b'') = [ascii ''a'', ascii ''b''] \<and>
   add_pull_request_notes (scripted [] (404, []) (404, []) [201, 201]) None
       demo_pull_request_null_head (ascii ''1. a\<newline>2. b'') demo_changes [] =
     Inl AttributeError \<and>
   add_pull_request_notes (scripted [] (404, []) (404, []) [201, 201]) None
       demo_pull_request (ascii ''1. a\<newline>2. b'') overlong_changes [] =
     Inl ValueError"
proof -
  have ne: "review_comments (ascii ''1. a\<newline>2. b'') \<noteq> []"
    by (simp add: demo_review2)
  have c: "PullRequestHandler (demo_head Null) (ascii ''token'') (ascii ''https://github.com'') =
     Inr demo_pull_request_null_head"
    by (simp add: PullRequestHandler_def pull_request_number_of_def repo_full_name_of_def
        demo_head_def demo_pull_request_null_head_def demo_handler_def)
  from c demo_review2 add_pull_request_notes_raises(1) [OF ne demo_fields(3)]
    add_pull_request_notes_raises(2) [OF ne demo_fields(1) overlong_positions]
  show ?thesis by simp
qed

text \<open>
  Claim C3. In inline delivery (comments, a head commit id and a non-empty list \<open>ps\<close> of
  positions), the call raises nothing, and the request of index \<open>i\<close> delivers the capped
  comment of index \<open>i\<close> at the position of index \<open>i mod length ps\<close>, for every index of
  the capped list: no comment is left out for want of positions. With two positions and
  five comments the positions used are those of index 0, 1, 0, 1, 0.
\<close>

theorem add_pull_request_notes_wraps:
  assumes "review_comments r \<noteq> []"
      and "head_commit_id_of (webhook_data h) = Inr (Some sha)" and "sha \<noteq> []"
      and "extract_review_positions changes = Inr ps" and "ps \<noteq> []"
  shows
  "\<exists>res. add_pull_request_notes gh env h r changes tr = Inr res \<and>
   (\<forall>i < length (capped_comments env r).
      drop (length tr) res ! i =
        Call (ReviewComment (repo_full_name h) (pull_request_number h)
                (capped_comments env r ! i) sha
                (path (ps ! (i mod length ps))) (line (ps ! (i mod length ps)))
                (ascii ''RIGHT''))) \<and>
   (length ps = 2 \<and> length (capped_comments env r) = 5 \<longrightarrow>
      map (\<lambda>e. case e of
                  Call (ReviewComment repo n body commit p l side) \<Rightarrow> (body, p, l)
                | _ \<Rightarrow> ([], [], 0))
        (take 5 (drop (length tr) res)) =
      [(capped_comments env r ! 0, path (ps ! 0), line (ps ! 0)),
       (capped_comments env r ! 1, path (ps ! 1), line (ps ! 1)),
       (capped_comments env r ! 2, path (ps ! 0), line (ps ! 0)),
       (capped_comments env r ! 3, path (ps ! 1), line (ps ! 1)),
       (capped_comments env r ! 4, path (ps ! 0), line (ps ! 0))])"
proof -
  let ?cs = "capped_comments env r"
  let ?reqs = "inline_requests h sha ps ?cs"
  define res where
    "res = tr @ map Call ?reqs @ (if successes gh tr ?reqs = 0 then [issue_comment h r] else [])"
  have r: "add_pull_request_notes gh env h r changes tr = Inr res"
    unfolding res_def by (rule add_pull_request_notes_inline [OF assms])
  have d: "drop (length tr) res =
      map Call ?reqs @ (if successes gh tr ?reqs = 0 then [issue_comment h r] else [])"
    by (simp add: res_def)
  have nth: "drop (length tr) res ! i =
        Call (ReviewComment (repo_full_name h) (pull_request_number h) (?cs ! i) sha
                (path (ps ! (i mod length ps))) (line (ps ! (i mod length ps)))
                (ascii ''RIGHT''))" if "i < length ?cs" for i
    using that unfolding d
    by (simp add: nth_append inline_requests_def inline_request_def)
  have five: "map (\<lambda>e. case e of
                  Call (ReviewComment repo n body commit p l side) \<Rightarrow> (body, p, l)
                | _ \<Rightarrow> ([], [], 0))
        (take 5 (drop (length tr) res)) =
      [(?cs ! 0, path (ps ! 0), line (ps ! 0)), (?cs ! 1, path (ps ! 1), line (ps ! 1)),
       (?cs ! 2, path (ps ! 0), line (ps ! 0)), (?cs ! 3, path (ps ! 1), line (ps ! 1)),
       (?cs ! 4, path (ps ! 0), line (ps ! 0))]"
    if "length ps = 2" "length ?cs = 5"
    unfolding d using that
    by (simp add: inline_requests_def inline_request_def upt_five)
  show ?thesis
  proof (intro exI [of _ res] conjI allI impI)
    show "add_pull_request_notes gh env h r changes tr = Inr res"
      by (rule r)
  next
    fix i
    assume "i < length ?cs"
    then show "drop (length tr) res ! i =
        Call (ReviewComment (repo_full_name h) (pull_request_number h) (?cs ! i) sha
                (path (ps ! (i mod length ps))) (line (ps ! (i mod length ps)))
                (ascii ''RIGHT''))"
      by (rule nth)
  next
    assume "length ps = 2 \<and> length ?cs = 5"
    then show "map (\<lambda>e. case e of
                  Call (ReviewComment repo n body commit p l side) \<Rightarrow> (body, p, l)
                | _ \<Rightarrow> ([], [], 0))
        (take 5 (drop (length tr) res)) =
      [(?cs ! 0, path (ps ! 0), line (ps ! 0)), (?cs ! 1, path (ps ! 1), line (ps ! 1)),
       (?cs ! 2, path (ps ! 0), line (ps ! 0)), (?cs ! 3, path (ps ! 1), line (ps ! 1)),
       (?cs ! 4, path (ps ! 0), line (ps ! 0))]"
      using five by simp
  qed
qed

theorem add_pull_request_notes_wraps_witness:
  "review_comments (ascii ''1. a\<newline>2. b\<newline>3. c\<newline>4. d\<newline>5. e'') =
     [ascii ''a'', ascii ''b'', ascii ''c'', ascii ''d'', ascii ''e''] \<and>
   head_commit_id_of (webhook_data demo_pull_request) = Inr (Some (ascii ''head_commit_sha'')) \<and>
   extract_review_positions demo_changes =
     Inr [\<lparr>path = ascii ''biz/demo.py'', line = 11\<rparr>, \<lparr>path = ascii ''biz/demo.py'', line = 12\<rparr>] \<and>
   (\<exists>res. add_pull_request_notes (scripted [] (404, []) (404, []) [201, 201, 201, 201, 201])
        None demo_pull_request (ascii ''1. a\<newline>2. b\<newline>3. c\<newline>4. d\<newline>5. e'')
        demo_changes [] = Inr res \<and>
      map (\<lambda>e. case e of
               Call (ReviewComment repo n body commit p l side) \<Rightarrow> (body, p, l)
             | _ \<Rightarrow> ([], [], 0))
        (take 5 res) =
     [(ascii ''a'', ascii ''biz/demo.py'', 11), (ascii ''b'', ascii ''biz/demo.py'', 12),
      (ascii ''c'', ascii ''biz/demo.py'', 11), (ascii ''d'', ascii ''biz/demo.py'', 12),
      (ascii ''e'', ascii ''biz/demo.py'', 11)])"
proof -
  have ne: "review_comments (ascii ''1. a\<newline>2. b\<newline>3. c\<newline>4. d\<newline>5. e'') \<noteq> []"
    by (simp add: demo_review5)
  have ps: "[\<lparr>path = ascii ''biz/demo.py'', line = 11\<rparr>, \<lparr>path = ascii ''biz/demo.py'', line = 12\<rparr>]
              \<noteq> []"
    by simp
  have cs: "capped_comments None (ascii ''1. a\<newline>2. b\<newline>3. c\<newline>4. d\<newline>5. e'') =
     [ascii ''a'', ascii ''b'', ascii ''c'', ascii ''d'', ascii ''e'']"
    by (simp add: capped_comments_def demo_review5 max_comments_default)
  obtain res where res:
    "add_pull_request_notes (scripted [] (404, []) (404, []) [201, 201, 201, 201, 201])
        None demo_pull_request (ascii ''1. a\<newline>2. b\<newline>3. c\<newline>4. d\<newline>5. e'')
        demo_changes [] = Inr res"
    "map (\<lambda>e. case e of
               Call (ReviewComment repo n body commit p l side) \<Rightarrow> (body, p, l)
             | _ \<Rightarrow> ([], [], 0))
        (take 5 res) =
     [(ascii ''a'', ascii ''biz/demo.py'', 11), (ascii ''b'', ascii ''biz/demo.py'', 12),
      (ascii ''c'', ascii ''biz/demo.py'', 11), (ascii ''d'', ascii ''biz/demo.py'', 12),
      (ascii ''e'', ascii ''biz/demo.py'', 11)]"
    using add_pull_request_notes_wraps [OF ne demo_fields(1) sha_nonempty demo_positions ps,
        of "scripted [] (404, []) (404, []) [201, 201, 201, 201, 201]" None "[]"]
    unfolding cs by auto
  have "\<exists>res. add_pull_request_notes (scripted [] (404, []) (404, []) [201, 201, 201, 201, 201])
        None demo_pull_request (ascii ''1. a\<newline>2. b\<newline>3. c\<newline>4. d\<newline>5. e'')
        demo_changes [] = Inr res \<and>
      map (\<lambda>e. case e of
               Call (ReviewComment repo n body commit p l side) \<Rightarrow> (body, p, l)
             | _ \<Rightarrow> ([], [], 0))
        (take 5 res) =
     [(ascii ''a'', ascii ''biz/demo.py'', 11), (ascii ''b'', ascii ''biz/demo.py'', 12),
      (ascii ''c'', ascii ''biz/demo.py'', 11), (ascii ''d'', ascii ''biz/demo.py'', 12),
      (ascii ''e'', ascii ''biz/demo.py'', 11)]"
    by (rule exI [of _ res]) (rule conjI [OF res])
  with demo_review5 demo_fields(1) demo_positions show ?thesis
    by (intro conjI)
qed




section \<open>Properties of the cap\<close>

text \<open>A text with more than 4300 digits is refused by \<open>int\<close>, whatever else it holds.\<close>

lemma digit_not_int_space: "is_digit c \<Longrightarrow> \<not> int_space c"
  by (auto simp: is_digit_def int_space_def dest: digit_not_space)

lemma filter_digits_dropWhile: "filter is_digit (dropWhile int_space s) = filter is_digit s"
  by (induction s) (auto dest: digit_not_int_space)

lemma filter_digits_trimmed:
  "filter is_digit (rev (dropWhile int_space (rev (dropWhile int_space s)))) = filter is_digit s"
  by (simp add: rev_filter [symmetric] filter_digits_dropWhile)

lemma sign_not_digit: "\<not> is_digit 45" "\<not> is_digit 43"
  by (simp_all add: is_digit_def decimal_value_def nd_starts_def)

lemma py_int_too_long:
  assumes "int_max_str_digits < length (filter is_digit s)"
  shows "py_int s = None"
proof -
  define t where "t = rev (dropWhile int_space (rev (dropWhile int_space s)))"
  have long: "int_max_str_digits < length (filter is_digit t)"
    using assms by (simp add: t_def filter_digits_trimmed)
  have p: "py_int s =
      (case t of
         [] \<Rightarrow> None
       | c # cs \<Rightarrow>
           if c = 45 then map_option (\<lambda>n. - int n) (unsigned_int cs)
           else if c = 43 then map_option int (unsigned_int cs)
           else map_option int (unsigned_int t))"
    unfolding py_int_def Let_def t_def by (rule refl)
  show ?thesis
  proof (cases t)
    case Nil
    with p show ?thesis by simp
  next
    case (Cons c cs)
    have u: "unsigned_int t = None"
      using long by (simp add: unsigned_int_def)
    have "unsigned_int cs = None" if "c = 45 \<or> c = 43"
      using long that sign_not_digit by (auto simp: Cons unsigned_int_def)
    with u p show ?thesis
      by (simp add: Cons)
  qed
qed

text \<open>
  Claim C9, as stated, fails for a configured maximum below one: the slice is
  \<open>comments[:max(1, max_comments)]\<close>, so with the configured value 0 one comment is
  kept and delivered.
\<close>

theorem add_pull_request_notes_cap_counterexample:
  "py_int (ascii ''0'') = Some 0 \<and>
   review_comments (ascii ''1. a\<newline>2. b'') = [ascii ''a'', ascii ''b''] \<and>
   add_pull_request_notes (scripted [] (404, []) (404, []) [201, 201]) (Some (ascii ''0''))
       demo_pull_request (ascii ''1. a\<newline>2. b'') demo_changes [] =
     Inr [Call (ReviewComment (Some (ascii ''owner/repo'')) (Some 99) (ascii ''a'')
              (ascii ''head_commit_sha'') (ascii ''biz/demo.py'') 11 (ascii ''RIGHT''))]"
proof -
  have ne: "review_comments (ascii ''1. a\<newline>2. b'') \<noteq> []"
    by (simp add: demo_review2)
  have ps: "[\<lparr>path = ascii ''biz/demo.py'', line = 11\<rparr>, \<lparr>path = ascii ''biz/demo.py'', line = 12\<rparr>]
              \<noteq> []"
    by simp
  have cs: "capped_comments (Some (ascii ''0'')) (ascii ''1. a\<newline>2. b'') = [ascii ''a'']"
    by (simp add: capped_comments_def demo_review2 max_comments_zero)
  have z: "py_int (ascii ''0'') = Some 0"
    by (simp add: int_eval)
  show ?thesis
    using add_pull_request_notes_inline [OF ne demo_fields(1) sha_nonempty demo_positions ps,
        of "scripted [] (404, []) (404, []) [201, 201]" "Some (ascii ''0'')" "[]"]
    by (simp add: z cs demo_review2 demo_fields inline_requests_def
        inline_request_def scripted_def)
qed

text \<open>
  Claim C9, amended. \<open>add_pull_request_notes\<close> keeps the first \<open>max(1, n)\<close> comments,
  where \<open>n\<close> is the configured value when it is a valid integer and 20 when the value is
  absent or no valid integer (a text of more than 4300 digits is none: \<open>int\<close> refuses
  it): at most \<open>n\<close> comments when \<open>n\<close> is at least one, and one comment when \<open>n\<close> is
  below one. In inline delivery exactly the kept comments are sent; the others are
  dropped.
\<close>

theorem add_pull_request_notes_cap:
  "(py_int v = Some n \<longrightarrow>
      capped_comments (Some v) r = take (nat (max 1 n)) (review_comments r)) \<and>
   (py_int v = Some n \<and> 1 \<le> n \<longrightarrow> length (capped_comments (Some v) r) \<le> nat n) \<and>
   (py_int v = None \<longrightarrow> capped_comments (Some v) r = take 20 (review_comments r)) \<and>
   (int_max_str_digits < length (filter is_digit v) \<longrightarrow>
      py_int v = None \<and> capped_comments (Some v) r = take 20 (review_comments r)) \<and>
   capped_comments None r = take 20 (review_comments r) \<and>
   (review_comments r \<noteq> [] \<and> head_commit_id_of (webhook_data h) = Inr (Some sha) \<and>
    sha \<noteq> [] \<and> extract_review_positions changes = Inr ps \<and> ps \<noteq> [] \<longrightarrow>
      (\<exists>res. add_pull_request_notes gh env h r changes tr = Inr res \<and>
         filter is_review_comment (drop (length tr) res) =
           map Call (inline_requests h sha ps (capped_comments env r))))"
proof (intro conjI impI)
  show "capped_comments (Some v) r = take (nat (max 1 n)) (review_comments r)"
    if "py_int v = Some n"
    using that by (simp add: capped_comments_def max_comments_def)
  show "length (capped_comments (Some v) r) \<le> nat n" if "py_int v = Some n \<and> 1 \<le> n"
    using that by (simp add: capped_comments_def max_comments_def)
  show "capped_comments (Some v) r = take 20 (review_comments r)" if "py_int v = None"
    using that by (simp add: capped_comments_def max_comments_def)
  show "py_int v = None" if "int_max_str_digits < length (filter is_digit v)"
    using that by (rule py_int_too_long)
  show "capped_comments (Some v) r = take 20 (review_comments r)"
    if "int_max_str_digits < length (filter is_digit v)"
    using py_int_too_long [OF that] by (simp add: capped_comments_def max_comments_def)
  show "capped_comments None r = take 20 (review_comments r)"
    by (simp add: capped_comments_def max_comments_default)
  show "\<exists>res. add_pull_request_notes gh env h r changes tr = Inr res \<and>
         filter is_review_comment (drop (length tr) res) =
           map Call (inline_requests h sha ps (capped_comments env r))"
    if "review_comments r \<noteq> [] \<and> head_commit_id_of (webhook_data h) = Inr (Some sha) \<and>
        sha \<noteq> [] \<and> extract_review_positions changes = Inr ps \<and> ps \<noteq> []"
    using that add_pull_request_notes_inline [of r h sha changes ps gh env tr]
    by simp
qed

theorem add_pull_request_notes_cap_witness:
  "py_int (ascii ''1'') = Some 1 \<and>
   capped_comments (Some (ascii ''1'')) (ascii ''1. a\<newline>2. b'') = [ascii ''a''] \<and>
   py_int (ascii ''many'') = None \<and>
   capped_comments (Some (ascii ''many'')) (ascii ''1. a\<newline>2. b'') =
     [ascii ''a'', ascii ''b''] \<and>
   py_int (replicate 4301 49) = None \<and>
   capped_comments (Some (replicate 4301 49)) (ascii ''1. a\<newline>2. b'') =
     [ascii ''a'', ascii ''b''] \<and>
   (\<exists>res. add_pull_request_notes (scripted [] (404, []) (404, []) [201, 201])
        (Some (ascii ''1'')) demo_pull_request (ascii ''1. a\<newline>2. b'') demo_changes [] =
        Inr res \<and>
      filter is_review_comment res =
        [Call (ReviewComment (Some (ascii ''owner/repo'')) (Some 99) (ascii ''a'')
                 (ascii ''head_commit_sha'') (ascii ''biz/demo.py'') 11 (ascii ''RIGHT''))])"
proof -
  have one: "py_int (ascii ''1'') = Some 1"
    by (simp add: int_eval)
  have many: "py_int (ascii ''many'') = None"
    by (simp add: int_eval)
  have long: "int_max_str_digits < length (filter is_digit (replicate 4301 49))"
    by (simp add: filter_digits digit_one int_max_str_digits_def)
  have a: "capped_comments (Some (ascii ''1'')) (ascii ''1. a\<newline>2. b'') = [ascii ''a'']"
    using add_pull_request_notes_cap [of "ascii ''1''" 1 "ascii ''1. a\<newline>2. b''"] one
    by (simp add: demo_review2)
  have b: "capped_comments (Some (ascii ''many'')) (ascii ''1. a\<newline>2. b'') =
     [ascii ''a'', ascii ''b'']"
    using add_pull_request_notes_cap [of "ascii ''many''" 0 "ascii ''1. a\<newline>2. b''"] many
    by (simp add: demo_review2)
  have l: "py_int (replicate 4301 49) = None \<and>
     capped_comments (Some (replicate 4301 49)) (ascii ''1. a\<newline>2. b'') =
     [ascii ''a'', ascii ''b'']"
    using add_pull_request_notes_cap [of "replicate 4301 49" 0 "ascii ''1. a\<newline>2. b''"] long
    by (simp add: demo_review2)
  have ps: "[\<lparr>path = ascii ''biz/demo.py'', line = 11\<rparr>, \<lparr>path = ascii ''biz/demo.py'', line = 12\<rparr>]
              \<noteq> []"
    by simp
  have "review_comments (ascii ''1. a\<newline>2. b'') \<noteq> [] \<and>
      head_commit_id_of (webhook_data demo_pull_request) = Inr (Some (ascii ''head_commit_sha'')) \<and>
      ascii ''head_commit_sha'' \<noteq> [] \<and>
      extract_review_positions demo_changes =
        Inr [\<lparr>path = ascii ''biz/demo.py'', line = 11\<rparr>, \<lparr>path = ascii ''biz/demo.py'', line = 12\<rparr>] \<and>
      [\<lparr>path = ascii ''biz/demo.py'', line = 11\<rparr>, \<lparr>path = ascii ''biz/demo.py'', line = 12\<rparr>] \<noteq> []"
    using demo_review2 demo_fields(1) sha_nonempty demo_positions ps by simp
  with add_pull_request_notes_cap [of "ascii ''1''" 1 "ascii ''1. a\<newline>2. b''"
        demo_pull_request "ascii ''head_commit_sha''" demo_changes
        "[\<lparr>path = ascii ''biz/demo.py'', line = 11\<rparr>, \<lparr>path = ascii ''biz/demo.py'', line = 12\<rparr>]"
        "scripted [] (404, []) (404, []) [201, 201]" "Some (ascii ''1'')" "[]"]
  obtain res where res:
    "add_pull_request_notes (scripted [] (404, []) (404, []) [201, 201])
        (Some (ascii ''1'')) demo_pull_request (ascii ''1. a\<newline>2. b'') demo_changes [] =
        Inr res"
    "filter is_review_comment res =
       map Call (inline_requests demo_pull_request (ascii ''head_commit_sha'')
         [\<lparr>path = ascii ''biz/demo.py'', line = 11\<rparr>, \<lparr>path = ascii ''biz/demo.py'', line = 12\<rparr>]
         (capped_comments (Some (ascii ''1'')) (ascii ''1. a\<newline>2. b'')))"
    by auto
  have "filter is_review_comment res =
        [Call (ReviewComment (Some (ascii ''owner/repo'')) (Some 99) (ascii ''a'')
                 (ascii ''head_commit_sha'') (ascii ''biz/demo.py'') 11 (ascii ''RIGHT''))]"
    unfolding res(2) a by (simp add: inline_requests_def inline_request_def demo_fields)
  with res(1) have c: "\<exists>res. add_pull_request_notes (scripted [] (404, []) (404, []) [201, 201])
        (Some (ascii ''1'')) demo_pull_request (ascii ''1. a\<newline>2. b'') demo_changes [] =
        Inr res \<and>
      filter is_review_comment res =
        [Call (ReviewComment (Some (ascii ''owner/repo'')) (Some 99) (ascii ''a'')
                 (ascii ''head_commit_sha'') (ascii ''biz/demo.py'') 11 (ascii ''RIGHT''))]"
    by (intro exI [of _ res] conjI)
  from one many a b l c show ?thesis
    by (intro conjI) simp_all
qed


section \<open>Properties of the splitter\<close>

lemma last_dropWhile: "dropWhile P xs \<noteq> [] \<Longrightarrow> last (dropWhile P xs) = last xs"
  by (induction xs) (auto split: if_splits)

lemma set_strip: "set (strip s) \<subseteq> set s"
proof -
  have "set (dropWhile is_space (rev (dropWhile is_space s))) \<subseteq> set (rev (dropWhile is_space s))"
    by (auto dest: set_dropWhileD)
  also have "\<dots> \<subseteq> set s"
    by (auto dest: set_dropWhileD)
  finally show ?thesis
    by (simp add: strip_def lstrip_def rstrip_def)
qed

lemma strip_ends:
  assumes ne: "strip s \<noteq> []"
  shows "\<not> is_space (hd (strip s)) \<and> \<not> is_space (last (strip s))"
proof -
  define a where "a = dropWhile is_space s"
  define b where "b = dropWhile is_space (rev a)"
  have s: "strip s = rev b"
    by (simp add: strip_def lstrip_def rstrip_def a_def b_def)
  with ne have b: "b \<noteq> []" by simp
  then have l: "\<not> is_space (hd b)"
    unfolding b_def by (rule hd_dropWhile)
  have a: "a \<noteq> []"
    using b unfolding b_def by (cases a) simp_all
  then have ha: "\<not> is_space (hd a)"
    unfolding a_def by (rule hd_dropWhile)
  have "last b = last (rev a)"
    using b unfolding b_def by (rule last_dropWhile)
  then have "last b = hd a"
    using a by (simp add: last_rev)
  with ha l b show ?thesis
    unfolding s by (simp add: hd_rev last_rev)
qed

text \<open>A text that begins and ends with a character that is no white space is its own strip.\<close>

lemma strip_id:
  assumes "s \<noteq> []" and "\<not> is_space (hd s)" and "\<not> is_space (last s)"
  shows "strip s = s"
proof -
  have a: "dropWhile is_space s = s"
    using assms(1,2) by (cases s) simp_all
  have "dropWhile is_space (rev s) = rev s"
    using assms(1,3) by (cases "rev s") (simp_all add: last_rev [symmetric] hd_rev)
  with a show ?thesis
    by (simp add: strip_def lstrip_def rstrip_def)
qed

lemma splitlines_from_no_break:
  "x \<in> set (splitlines_from cur s) \<Longrightarrow> \<forall>c \<in> set cur. \<not> is_linebreak c \<Longrightarrow>
   \<forall>c \<in> set x. \<not> is_linebreak c"
proof (induction cur s rule: splitlines_from.induct)
  case (1 cur)
  then show ?case by (cases "cur = []") simp_all
next
  case (2 cur c cs)
  show ?case
  proof (cases "c = 13 \<and> cs \<noteq> [] \<and> hd cs = 10")
    case True
    have "splitlines_from cur (c # cs) = cur # splitlines_from [] (tl cs)"
      by (simp only: splitlines_from.simps if_P [OF True])
    with "2.prems"(1) have "x = cur \<or> x \<in> set (splitlines_from [] (tl cs))"
      by simp
    then show ?thesis
    proof
      assume "x = cur"
      with "2.prems"(2) show ?thesis by simp
    next
      assume "x \<in> set (splitlines_from [] (tl cs))"
      with "2.IH"(1) [OF True] show ?thesis by simp
    qed
  next
    case False
    show ?thesis
    proof (cases "is_linebreak c")
      case True
      have "splitlines_from cur (c # cs) = cur # splitlines_from [] cs"
        by (simp only: splitlines_from.simps if_not_P [OF False] if_P [OF True])
      with "2.prems"(1) have "x = cur \<or> x \<in> set (splitlines_from [] cs)"
        by simp
      then show ?thesis
      proof
        assume "x = cur"
        with "2.prems"(2) show ?thesis by simp
      next
        assume "x \<in> set (splitlines_from [] cs)"
        with "2.IH"(2) [OF False True] show ?thesis by simp
      qed
    next
      case nb: False
      have "splitlines_from cur (c # cs) = splitlines_from (cur @ [c]) cs"
        by (simp only: splitlines_from.simps if_not_P [OF False] if_not_P [OF nb])
      with "2.prems"(1) have "x \<in> set (splitlines_from (cur @ [c]) cs)"
        by simp
      moreover have "\<forall>d \<in> set (cur @ [c]). \<not> is_linebreak d"
        using nb "2.prems"(2) by simp
      ultimately show ?thesis
        using "2.IH"(3) [OF False nb] by blast
    qed
  qed
qed

lemma splitlines_no_break:
  "x \<in> set (splitlines s) \<Longrightarrow> c \<in> set x \<Longrightarrow> \<not> is_linebreak c"
  using splitlines_from_no_break [of x "[]" s] by (simp add: splitlines_def)

text \<open>
  The lines that the splitter looks at are not empty, begin and end with a character
  that is no white space, and hold no line feed.
\<close>

lemma review_lines_shape:
  assumes "l \<in> set (review_lines r)"
  shows "l \<noteq> [] \<and> \<not> is_space (hd l) \<and> \<not> is_space (last l) \<and> 10 \<notin> set l"
proof -
  from assms obtain x where x: "x \<in> set (splitlines (truncate_score (remove_marker (strip r))))"
    and ne: "strip x \<noteq> []" and l: "l = strip x"
    by (auto simp: review_lines_def)
  have "10 \<notin> set x"
    using splitlines_no_break [OF x, of 10] by (auto simp: is_linebreak_def)
  then have "10 \<notin> set l"
    using set_strip [of x] l by auto
  with strip_ends [OF ne] ne l show ?thesis by simp
qed

lemma dot_plus_end_no_feed: "10 \<notin> set s \<Longrightarrow> dot_plus_end s = (if s = [] then None else Some s)"
proof -
  assume a: "10 \<notin> set s"
  then have t: "takeWhile (\<lambda>c. c \<noteq> 10) s = s"
    by (auto simp: takeWhile_eq_all_conv)
  from a have d: "dropWhile (\<lambda>c. c \<noteq> 10) s = []"
    by (auto simp: dropWhile_eq_Nil_conv)
  show ?thesis
    unfolding dot_plus_end_def Let_def t d by simp
qed

lemma drop_takeWhile: "drop (length (takeWhile P s)) s = dropWhile P s"
  by (induction s) simp_all

text \<open>
  On a text without line feed that does not end with white space, the greedy run of
  white space succeeds at its first try.
\<close>

lemma spaces_then_rest_greedy:
  assumes "10 \<notin> set s" and "s = [] \<or> \<not> is_space (last s)"
  shows "spaces_then_rest lo s (length (takeWhile is_space s)) =
           (if lo \<le> length (takeWhile is_space s) \<and> dropWhile is_space s \<noteq> []
            then Some (dropWhile is_space s) else None)"
proof (cases "length (takeWhile is_space s)")
  case 0
  then have "takeWhile is_space s = []" by simp
  then have d: "dropWhile is_space s = s"
    by (cases s) (auto split: if_splits)
  show ?thesis
    using 0 d dot_plus_end_no_feed [OF assms(1)] by (cases "s = []") simp_all
next
  case (Suc k)
  then have ne: "s \<noteq> []" by auto
  with assms(2) have "\<not> is_space (last s)" by simp
  then have b: "dropWhile is_space s \<noteq> []"
    using ne by (auto simp: dropWhile_eq_Nil_conv)
  have "10 \<notin> set (dropWhile is_space s)"
    using assms(1) by (auto dest: set_dropWhileD)
  then have "dot_plus_end (dropWhile is_space s) = Some (dropWhile is_space s)"
    using b by (simp add: dot_plus_end_no_feed)
  then have "dot_plus_end (drop (Suc k) s) = Some (dropWhile is_space s)"
    using drop_takeWhile [of is_space s] Suc by simp
  then show ?thesis
    using Suc b by (simp add: not_less)
qed


lemma group_stripped:
  assumes "dropWhile is_space s \<noteq> []" and "\<not> is_space (last s)"
  shows "strip (dropWhile is_space s) = dropWhile is_space s"
proof (rule strip_id)
  show "dropWhile is_space s \<noteq> []" by (rule assms(1))
  show "\<not> is_space (hd (dropWhile is_space s))"
    using assms(1) by (rule hd_dropWhile)
  show "\<not> is_space (last (dropWhile is_space s))"
    using assms last_dropWhile [of is_space s] by simp
qed

lemma bullet_match_line:
  assumes "l \<noteq> []" and "\<not> is_space (last l)" and "10 \<notin> set l"
  shows "map_option strip (bullet_match l) = bullet_item l"
proof -
  from assms(1) obtain c s where l: "l = c # s" by (cases l) auto
  have feed: "10 \<notin> set s" using assms(3) l by simp
  have ends: "s = [] \<or> \<not> is_space (last s)" using assms(2) l by (cases s) simp_all
  show ?thesis
  proof (cases "c = 45 \<or> c = 42 \<or> c = 43")
    case False
    then show ?thesis by (simp add: bullet_match_def bullet_item_def l)
  next
    case True
    have m: "bullet_match l = spaces_then_rest 1 s (length (takeWhile is_space s))"
      using True by (auto simp: bullet_match_def l)
    show ?thesis
    proof (cases "takeWhile is_space s \<noteq> [] \<and> dropWhile is_space s \<noteq> []")
      case False
      then have "bullet_match l = None"
        unfolding m spaces_then_rest_greedy [OF feed ends] by (auto simp: Suc_le_eq)
      moreover have "bullet_item l = None"
        using False by (auto simp: bullet_item_def l lstrip_def)
      ultimately show ?thesis by simp
    next
      case yes: True
      then have "s \<noteq> []" by auto
      with ends have e: "\<not> is_space (last s)" by simp
      have "bullet_match l = Some (dropWhile is_space s)"
        unfolding m spaces_then_rest_greedy [OF feed ends] using yes by (auto simp: Suc_le_eq)
      moreover have "bullet_item l = Some (dropWhile is_space s)"
        using yes True by (auto simp: bullet_item_def l lstrip_def)
      ultimately show ?thesis
        using group_stripped [of s] yes e by simp
    qed
  qed
qed


lemma ordered_match_line:
  assumes "l \<noteq> []" and "\<not> is_space (last l)" and "10 \<notin> set l"
  shows "map_option strip (ordered_match l) = ordered_item l"
proof (cases "takeWhile is_digit l = []")
  case True
  then show ?thesis
    by (auto simp: ordered_match_def ordered_item_def digits1_def split: list.splits)
next
  case ds: False
  then have d1: "digits1 l = Some (takeWhile is_digit l, dropWhile is_digit l)"
    by (simp add: digits1_def)
  show ?thesis
  proof (cases "dropWhile is_digit l")
    case Nil
    show ?thesis
      unfolding ordered_match_def ordered_item_def d1 Nil by simp
  next
    case (Cons c s)
    have l: "l = takeWhile is_digit l @ c # s"
      using takeWhile_dropWhile_id [of is_digit l] Cons by simp
    have feed: "10 \<notin> set s"
    proof
      assume "10 \<in> set s"
      then have "10 \<in> set (takeWhile is_digit l @ c # s)" by simp
      with l assms(3) show False by simp
    qed
    have ends: "s = [] \<or> \<not> is_space (last s)"
    proof (cases s)
      case Nil
      then show ?thesis by simp
    next
      case (Cons a list)
      then have "last (takeWhile is_digit l @ c # s) = last s" by simp
      with l assms(2) show ?thesis by simp
    qed
    show ?thesis
    proof (cases "c = 46 \<or> c = 0x3001 \<or> c = 41")
      case False
      then show ?thesis by (simp add: ordered_match_def ordered_item_def d1 Cons)
    next
      case True
      have m: "ordered_match l = spaces_then_rest 0 s (length (takeWhile is_space s))"
        using True by (auto simp: ordered_match_def d1 Cons)
      show ?thesis
      proof (cases "dropWhile is_space s = []")
        case e: True
        have "ordered_match l = None"
          unfolding m spaces_then_rest_greedy [OF feed ends] e by simp
        moreover have "ordered_item l = None"
          using e by (simp add: ordered_item_def Cons lstrip_def)
        ultimately show ?thesis by simp
      next
        case ne: False
        then have "s \<noteq> []" by auto
        with ends have e: "\<not> is_space (last s)" by simp
        have "ordered_match l = Some (dropWhile is_space s)"
          unfolding m spaces_then_rest_greedy [OF feed ends] using ne by simp
        moreover have "ordered_item l = Some (dropWhile is_space s)"
          using ne True ds by (auto simp: ordered_item_def Cons lstrip_def)
        ultimately show ?thesis
          using group_stripped [OF ne e] by simp
      qed
    qed
  qed
qed


lemma foldl_add_bullet_item:
  "foldl add_bullet_item acc ls =
     acc @ List.map_filter (\<lambda>l. case map_option strip (bullet_match l) of
                                  Some g \<Rightarrow> Some g
                                | None \<Rightarrow> map_option strip (ordered_match l)) ls"
proof (induction ls arbitrary: acc)
  case Nil
  then show ?case by simp
next
  case (Cons l ls)
  show ?case
    by (simp add: Cons.IH [of "add_bullet_item acc l"])
       (simp add: add_bullet_item_def split: option.splits)
qed

lemma map_filter_cong_set:
  "(\<And>x. x \<in> set xs \<Longrightarrow> f x = g x) \<Longrightarrow> List.map_filter f xs = List.map_filter g xs"
proof (induction xs)
  case Nil
  then show ?case by simp
next
  case (Cons a xs)
  have a: "f a = g a"
    by (rule Cons.prems) simp
  have "List.map_filter f xs = List.map_filter g xs"
    by (rule Cons.IH) (simp add: Cons.prems)
  with a show ?case by (simp split: option.splits)
qed

lemma bullet_items_lines:
  "foldl add_bullet_item [] (review_lines r) = List.map_filter list_item (review_lines r)"
proof -
  have "(case map_option strip (bullet_match l) of
           Some g \<Rightarrow> Some g
         | None \<Rightarrow> map_option strip (ordered_match l)) = list_item l"
    if "l \<in> set (review_lines r)" for l
  proof -
    from review_lines_shape [OF that]
    have s: "l \<noteq> []" "\<not> is_space (last l)" "10 \<notin> set l"
      by simp_all
    show ?thesis
      unfolding bullet_match_line [OF s] ordered_match_line [OF s] list_item_def ..
  qed
  then have "List.map_filter (\<lambda>l. case map_option strip (bullet_match l) of
                                  Some g \<Rightarrow> Some g
                                | None \<Rightarrow> map_option strip (ordered_match l)) (review_lines r) =
             List.map_filter list_item (review_lines r)"
    by (rule map_filter_cong_set)
  then show ?thesis
    unfolding foldl_add_bullet_item by simp
qed


lemma review_lines_empty_text:
  "remove_marker (strip r) = [] \<Longrightarrow> review_lines r = []"
  by (simp add: review_lines_def truncate_score_def score_section_start_def score_marker_at_def
      startswith_def splitlines_def Let_def)

lemma split_review_to_comments_items:
  assumes "List.map_filter list_item (review_lines r) \<noteq> []"
  shows "split_review_to_comments r = List.map_filter list_item (review_lines r)"
proof -
  have t: "remove_marker (strip r) \<noteq> []"
    using assms review_lines_empty_text [of r] by auto
  have r: "r \<noteq> []"
  proof
    assume "r = []"
    then have "remove_marker (strip r) = []"
      by (simp add: strip_def lstrip_def rstrip_def remove_marker_def ascii_def)
    with t show False by simp
  qed
  have "split_review_to_comments r =
          (let bullet_items = foldl add_bullet_item [] (review_lines r)
           in if bullet_items \<noteq> [] then bullet_items
              else foldl add_block []
                     (split_blank [] (truncate_score (remove_marker (strip r)))))"
    using t r by (simp add: split_review_to_comments_def review_lines_def Let_def)
  then show ?thesis
    using assms by (simp add: bullet_items_lines Let_def)
qed


lemma length_collapse_ws: "length (collapse_ws s) \<le> length s"
proof (induction s rule: collapse_ws.induct)
  case 1
  then show ?case by simp
next
  case (2 c cs)
  show ?case
  proof (cases "is_space c")
    case True
    have "length (dropWhile is_space cs) \<le> length cs"
      by (rule length_dropWhile_le)
    with "2.IH"(1) [OF True] True show ?thesis by simp
  next
    case False
    with "2.IH"(2) [OF False] show ?thesis by simp
  qed
qed

lemma dropWhile_same_length: "length (dropWhile P xs) = length xs \<Longrightarrow> dropWhile P xs = xs"
proof (cases xs)
  case Nil
  then show ?thesis by simp
next
  case (Cons x ys)
  assume l: "length (dropWhile P xs) = length xs"
  show ?thesis
  proof (cases "P x")
    case True
    have "length (dropWhile P ys) \<le> length ys"
      by (rule length_dropWhile_le)
    with l True Cons show ?thesis by simp
  next
    case False
    with Cons show ?thesis by simp
  qed
qed

text \<open>In a text that \<open>collapse_ws\<close> leaves as it is, the only white space is the space.\<close>

lemma collapse_ws_fixed:
  "collapse_ws s = s \<Longrightarrow> x \<in> set s \<Longrightarrow> is_space x \<Longrightarrow> x = 32"
proof (induction s rule: collapse_ws.induct)
  case 1
  then show ?case by simp
next
  case (2 c cs)
  show ?case
  proof (cases "is_space c")
    case True
    with "2.prems"(1) have c: "c = 32" and eq: "collapse_ws (dropWhile is_space cs) = cs"
      by simp_all
    have "length cs \<le> length (dropWhile is_space cs)"
      using length_collapse_ws [of "dropWhile is_space cs"] eq by simp
    moreover have "length (dropWhile is_space cs) \<le> length cs"
      by (rule length_dropWhile_le)
    ultimately have "length (dropWhile is_space cs) = length cs" by simp
    then have d: "dropWhile is_space cs = cs"
      by (rule dropWhile_same_length)
    show ?thesis
    proof (cases "x = c")
      case True
      with c show ?thesis by simp
    next
      case False
      with "2.prems"(2) have "x \<in> set (dropWhile is_space cs)" by (simp add: d)
      with "2.IH"(1) [OF True] eq d "2.prems"(3) show ?thesis by simp
    qed
  next
    case False
    with "2.prems"(1) have eq: "collapse_ws cs = cs" by simp
    from False "2.prems"(2,3) have "x \<in> set cs" by auto
    with "2.IH"(2) [OF False eq] "2.prems"(3) show ?thesis by simp
  qed
qed

lemma split_blank_one_block: "10 \<notin> set s \<Longrightarrow> split_blank cur s = [cur @ s]"
  by (induction s arbitrary: cur) simp_all


text \<open>
  Claim C7, as stated, fails in its last part: the class of the ordered pattern holds
  the full stop, the ideographic comma U+3001 and the closing parenthesis, and no
  full-width period. A line of digits and a full-width period (U+FF0E) is no list item:
  next to an ordinary item it is passed over, and the same line with an ordinary full
  stop is kept.
\<close>

theorem split_review_to_comments_full_width_counterexample:
  "ordered_match (ascii ''1'' @ [0xFF0E] @ ascii '' first'') = None \<and>
   split_review_to_comments (ascii ''1'' @ [0xFF0E] @ ascii '' first\<newline>2. second'') =
     [ascii ''second''] \<and>
   split_review_to_comments (ascii ''1. first\<newline>2. second'') =
     [ascii ''first'', ascii ''second'']"
  by (simp add: str_eval split_eval)

text \<open>
  Claim C7, amended. The lines of a review are the stripped, non-empty lines of its
  text after the marker line and the score section are cut off. A list item is a line
  that starts with \<open>-\<close>, \<open>*\<close> or \<open>+\<close> and white space, or with digits and one of \<open>.\<close>,
  U+3001 and \<open>)\<close>, and has text after that; its remainder is that text without the
  white space before it. On the lines of a review the two patterns of the source find
  exactly these items and remainders, and when at least one line is a list item the
  result of \<open>_split_review_to_comments\<close> is the list of the remainders of the list items,
  in the order of the lines; the other lines add nothing.
\<close>

theorem split_review_to_comments_list_items:
  "(\<forall>l \<in> set (review_lines r).
      map_option strip (bullet_match l) = bullet_item l \<and>
      map_option strip (ordered_match l) = ordered_item l) \<and>
   (List.map_filter list_item (review_lines r) \<noteq> [] \<longrightarrow>
      split_review_to_comments r = List.map_filter list_item (review_lines r))"
proof (intro conjI ballI impI)
  fix l
  assume "l \<in> set (review_lines r)"
  from review_lines_shape [OF this]
  have s: "l \<noteq> []" "\<not> is_space (last l)" "10 \<notin> set l"
    by simp_all
  show "map_option strip (bullet_match l) = bullet_item l"
    by (rule bullet_match_line [OF s])
  show "map_option strip (ordered_match l) = ordered_item l"
    by (rule ordered_match_line [OF s])
next
  assume "List.map_filter list_item (review_lines r) \<noteq> []"
  then show "split_review_to_comments r = List.map_filter list_item (review_lines r)"
    by (rule split_review_to_comments_items)
qed

theorem split_review_to_comments_list_items_witness:
  "review_lines (ascii ''Auto Review Result:\<newline>notes\<newline>1. first\<newline>\<newline>* second'') =
     [ascii ''notes'', ascii ''1. first'', ascii ''* second''] \<and>
   List.map_filter list_item [ascii ''notes'', ascii ''1. first'', ascii ''* second''] =
     [ascii ''first'', ascii ''second''] \<and>
   split_review_to_comments (ascii ''Auto Review Result:\<newline>notes\<newline>1. first\<newline>\<newline>* second'') =
     [ascii ''first'', ascii ''second'']"
proof -
  have l: "review_lines (ascii ''Auto Review Result:\<newline>notes\<newline>1. first\<newline>\<newline>* second'') =
     [ascii ''notes'', ascii ''1. first'', ascii ''* second'']"
    by (simp add: review_lines_def str_eval split_eval)
  have i: "List.map_filter list_item [ascii ''notes'', ascii ''1. first'', ascii ''* second''] =
     [ascii ''first'', ascii ''second'']"
    by (simp add: list_item_def bullet_item_def ordered_item_def str_eval is_digit_def
        decimal_value_def nd_starts_def)
  from split_review_to_comments_list_items
         [of "ascii ''Auto Review Result:\<newline>notes\<newline>1. first\<newline>\<newline>* second''"]
  show ?thesis
    unfolding l i by simp
qed

text \<open>
  Claim C8, as stated, fails: a comment that a split produced can itself begin with a
  list marker, or hold a run of white space, and is then changed by a second split. The
  review \<open>1. - foo\<close> gives the comment \<open>- foo\<close>, which gives \<open>foo\<close>; the review
  \<open>- a  b\<close> gives the comment \<open>a  b\<close>, which gives \<open>a b\<close>.
\<close>

theorem split_review_to_comments_idempotent_counterexample:
  "split_review_to_comments (ascii ''1. - foo'') = [ascii ''- foo''] \<and>
   split_review_to_comments (ascii ''- foo'') = [ascii ''foo''] \<and>
   split_review_to_comments (ascii ''- a  b'') = [ascii ''a  b''] \<and>
   split_review_to_comments (ascii ''a  b'') = [ascii ''a b'']"
  by (simp add: str_eval split_eval)

text \<open>
  Claim C8, amended. A comment that is not empty, is stripped, has no white space but
  single spaces, does not begin with the marker line, has no score marker at the start
  of a line, is no list item, does not begin with \<open>#\<close> and is none of the three section
  titles, is split into itself alone.
\<close>

theorem split_review_to_comments_idempotent:
  assumes "c \<noteq> []" and "strip c = c" and "collapse_ws c = c" and "remove_marker c = c"
      and "score_section_start c = None"
      and "bullet_match c = None" and "ordered_match c = None"
      and "\<not> startswith c (ascii ''#'')" and "c \<notin> set section_titles"
  shows "split_review_to_comments c = [c]"
proof -
  have sp: "x = 32" if "x \<in> set c" "is_space x" for x
    using collapse_ws_fixed [OF assms(3) that] .
  have nb: "\<forall>x \<in> set c. \<not> is_linebreak x"
  proof
    fix x assume x: "x \<in> set c"
    show "\<not> is_linebreak x"
    proof
      assume b: "is_linebreak x"
      then have "is_space x" by (rule linebreak_space)
      with sp [OF x] have "x = 32" by simp
      with b show False by (simp add: is_linebreak_def)
    qed
  qed
  then have feed: "10 \<notin> set c"
    by (auto simp: is_linebreak_def)
  have lines: "splitlines c = [c]"
    using splitlines_from_one_line [OF nb, of "[]"] assms(1) by (simp add: splitlines_def)
  have blocks: "split_blank [] c = [c]"
    using split_blank_one_block [OF feed, of "[]"] by simp
  have items: "add_bullet_item [] c = []"
    by (simp add: add_bullet_item_def assms(6,7))
  have block: "add_block [] c = [c]"
    using assms(1,8,9) by (simp add: add_block_def assms(2,3) Let_def)
  have t: "truncate_score c = c"
    by (simp add: truncate_score_def assms(5))
  show ?thesis
    unfolding split_review_to_comments_def assms(2) assms(4) Let_def t lines
    using assms(1) by (simp add: assms(2) items blocks block)
qed

theorem split_review_to_comments_idempotent_witness:
  "ascii ''foo bar'' \<noteq> [] \<and> strip (ascii ''foo bar'') = ascii ''foo bar'' \<and>
   collapse_ws (ascii ''foo bar'') = ascii ''foo bar'' \<and>
   remove_marker (ascii ''foo bar'') = ascii ''foo bar'' \<and>
   score_section_start (ascii ''foo bar'') = None \<and>
   bullet_match (ascii ''foo bar'') = None \<and> ordered_match (ascii ''foo bar'') = None \<and>
   \<not> startswith (ascii ''foo bar'') (ascii ''#'') \<and> ascii ''foo bar'' \<notin> set section_titles \<and>
   split_review_to_comments (ascii ''foo bar'') = [ascii ''foo bar'']"
proof -
  have h: "ascii ''foo bar'' \<noteq> []" "strip (ascii ''foo bar'') = ascii ''foo bar''"
    "collapse_ws (ascii ''foo bar'') = ascii ''foo bar''"
    "remove_marker (ascii ''foo bar'') = ascii ''foo bar''"
    "score_section_start (ascii ''foo bar'') = None"
    "bullet_match (ascii ''foo bar'') = None" "ordered_match (ascii ''foo bar'') = None"
    "\<not> startswith (ascii ''foo bar'') (ascii ''#'')" "ascii ''foo bar'' \<notin> set section_titles"
    by (simp_all add: str_eval split_eval)
  from split_review_to_comments_idempotent [OF h] h show ?thesis
    by blast
qed

end
